theory Spec2Isabelle
  imports Complex_Main "HOL-Library.Log_Nat" "HOL-Library.Char_ord" "HOL-Library.List_Lexorder"
begin

section \<open>Python numbers\<close>

text \<open>
  Python's \<open>int\<close> is unbounded and is modelled as \<^typ>\<open>int\<close>. Python's \<open>float\<close> is an
  IEEE-754 binary64 number. Every finite double is a rational number, so a double is
  modelled as the \<^typ>\<open>rat\<close> it denotes, and every float operation is the exact operation
  followed by \<open>fl\<close>, rounding to the nearest number with a 53-bit significand, ties to the
  even significand. The exponent range is not bounded in \<open>fl\<close>: it agrees with binary64
  wherever the magnitude lies between \<open>2 powi -1022\<close> and \<open>2 powi 1024\<close>, which holds for every
  quotient and product of pixel coordinates below.
\<close>

definition ilog2 :: "rat \<Rightarrow> int" where
  \<comment> \<open>for \<open>r > 0\<close>: the exponent \<open>e\<close> with \<open>2 powi e \<le> r < 2 powi (e + 1)\<close>\<close>
  "ilog2 r = (let (a, b) = quotient_of r; d = bitlen a - bitlen b
              in if 2 powi d \<le> r then d else d - 1)"

definition round_half_even :: "rat \<Rightarrow> int" where
  "round_half_even y =
     (let f = \<lfloor>y\<rfloor>; d = y - of_int f
      in if d < 1 / 2 then f else if 1 / 2 < d then f + 1 else if even f then f else f + 1)"

definition fl :: "rat \<Rightarrow> rat" where
  "fl r = (if r = 0 then 0
           else let u = 2 powi (ilog2 \<bar>r\<bar> - 52)
                in of_int (round_half_even (r / u)) * u)"

text \<open>
  \<open>a / b\<close> on two Python ints is the correctly rounded quotient. It raises
  \<open>ZeroDivisionError\<close> for \<open>b = 0\<close>; both callers below divide by a width or height that
  is not zero where the division is reached (lemmas \<open>rect_contains_width\<close> and
  \<open>pixmap_not_null_size\<close>).
\<close>

definition py_truediv :: "int \<Rightarrow> int \<Rightarrow> rat" where
  "py_truediv a b = fl (of_int a / of_int b)"

text \<open>\<open>x * s\<close> for an int \<open>x\<close> and a float \<open>s\<close>: \<open>x\<close> is converted to a float first.\<close>

definition py_mul_int_float :: "int \<Rightarrow> rat \<Rightarrow> rat" where
  "py_mul_int_float x s = fl (fl (of_int x) * s)"

text \<open>\<open>int(r)\<close> on a float truncates towards zero.\<close>

definition py_int :: "rat \<Rightarrow> int" where
  "py_int r = (if 0 \<le> r then \<lfloor>r\<rfloor> else \<lceil>r\<rceil>)"

text \<open>Exceptions of the Python runtime that the modelled code can raise.\<close>

datatype py_error =
  IndexError | TypeError | ValueError | KeyError | UnicodeDecodeError | JSONDecodeError
  | FileNotFoundError | NotADirectoryError | IsADirectoryError | UnidentifiedImageError

text \<open>
  Item assignment \<open>xs[i] = v\<close> on a list of length \<open>n\<close>: the indices \<open>0 .. n - 1\<close> and
  \<open>-n .. -1\<close> name an element, every other index makes Python raise \<open>IndexError\<close>.
\<close>

definition py_setitem :: "'a list \<Rightarrow> int \<Rightarrow> 'a \<Rightarrow> py_error + 'a list" where
  "py_setitem xs i v =
     (if 0 \<le> i \<and> i < int (length xs) then Inr (xs[nat i := v])
      else if i < 0 \<and> - int (length xs) \<le> i then Inr (xs[nat (int (length xs) + i) := v])
      else Inl IndexError)"

text \<open>\<open>xs.pop(i)\<close> for an index \<open>i\<close> produced by \<open>enumerate(xs)\<close>.\<close>

definition py_pop :: "'a list \<Rightarrow> nat \<Rightarrow> 'a list" where
  "py_pop xs i = take i xs @ drop (Suc i) xs"

section \<open>Qt geometry\<close>

text \<open>
  The toolkit's value classes that the annotator computes with, after Qt 5: \<open>QPoint\<close>,
  \<open>QSize\<close>, \<open>QRect\<close> (stored as its corners \<open>x1, y1, x2, y2\<close>, both inclusive) and the
  size of a \<open>QPixmap\<close>. C++ integer division truncates towards zero (\<open>cdiv\<close>).
\<close>

type_synonym qpoint = "int \<times> int"
type_synonym qsize = "int \<times> int"
type_synonym qpixmap = "int \<times> int"

definition cdiv :: "int \<Rightarrow> int \<Rightarrow> int" where
  "cdiv a b = sgn a * sgn b * (\<bar>a\<bar> div \<bar>b\<bar>)"

text \<open>PyQt5 gives \<open>QPoint\<close> a truth value: \<open>bool(p)\<close> is \<open>not p.isNull()\<close>.\<close>

definition truthy_point :: "qpoint \<Rightarrow> bool" where
  "truthy_point p = (p \<noteq> (0, 0))"

definition manhattanLength :: "qpoint \<Rightarrow> int" where
  "manhattanLength p = \<bar>fst p\<bar> + \<bar>snd p\<bar>"

definition point_diff :: "qpoint \<Rightarrow> qpoint \<Rightarrow> qpoint" where
  "point_diff p q = (fst p - fst q, snd p - snd q)"

definition null_pixmap :: qpixmap where
  "null_pixmap = (0, 0)"

definition pixmap_isNull :: "qpixmap \<Rightarrow> bool" where
  "pixmap_isNull pm = (fst pm \<le> 0 \<or> snd pm \<le> 0)"

definition pixmap_width :: "qpixmap \<Rightarrow> int" where
  "pixmap_width pm = fst pm"

definition pixmap_height :: "qpixmap \<Rightarrow> int" where
  "pixmap_height pm = snd pm"

record qrect =
  rect_x1 :: int
  rect_y1 :: int
  rect_x2 :: int
  rect_y2 :: int

definition null_rect :: qrect where
  \<comment> \<open>\<open>QRect()\<close>\<close>
  "null_rect = \<lparr>rect_x1 = 0, rect_y1 = 0, rect_x2 = - 1, rect_y2 = - 1\<rparr>"

definition rect_of :: "qpoint \<Rightarrow> qsize \<Rightarrow> qrect" where
  \<comment> \<open>\<open>QRect(topLeft, size)\<close>\<close>
  "rect_of corner sz = \<lparr>rect_x1 = fst corner, rect_y1 = snd corner,
                         rect_x2 = fst corner + fst sz - 1, rect_y2 = snd corner + snd sz - 1\<rparr>"

definition rect_x :: "qrect \<Rightarrow> int" where
  "rect_x r = rect_x1 r"

definition rect_y :: "qrect \<Rightarrow> int" where
  "rect_y r = rect_y1 r"

definition rect_width :: "qrect \<Rightarrow> int" where
  "rect_width r = rect_x2 r - rect_x1 r + 1"

definition rect_height :: "qrect \<Rightarrow> int" where
  "rect_height r = rect_y2 r - rect_y1 r + 1"

definition rect_size :: "qrect \<Rightarrow> qsize" where
  "rect_size r = (rect_width r, rect_height r)"

definition rect_isNull :: "qrect \<Rightarrow> bool" where
  "rect_isNull r = (rect_x2 r = rect_x1 r - 1 \<and> rect_y2 r = rect_y1 r - 1)"

definition rect_contains :: "qrect \<Rightarrow> qpoint \<Rightarrow> bool" where
  \<comment> \<open>\<open>QRect::contains(p, proper = false)\<close>\<close>
  "rect_contains r p =
     (let l = (if rect_x2 r < rect_x1 r - 1 then rect_x2 r else rect_x1 r);
          rr = (if rect_x2 r < rect_x1 r - 1 then rect_x1 r else rect_x2 r);
          t = (if rect_y2 r < rect_y1 r - 1 then rect_y2 r else rect_y1 r);
          b = (if rect_y2 r < rect_y1 r - 1 then rect_y1 r else rect_y2 r)
      in if fst p < l \<or> rr < fst p then False
         else if snd p < t \<or> b < snd p then False
         else True)"

definition rect_center :: "qrect \<Rightarrow> qpoint" where
  "rect_center r = (cdiv (rect_x1 r + rect_x2 r) 2, cdiv (rect_y1 r + rect_y2 r) 2)"

definition rect_moveCenter :: "qrect \<Rightarrow> qpoint \<Rightarrow> qrect" where
  "rect_moveCenter r p =
     (let w = rect_x2 r - rect_x1 r; h = rect_y2 r - rect_y1 r;
          nx = fst p - cdiv w 2; ny = snd p - cdiv h 2
      in \<lparr>rect_x1 = nx, rect_y1 = ny, rect_x2 = nx + w, rect_y2 = ny + h\<rparr>)"

definition size_scaled_keep_aspect :: "qsize \<Rightarrow> qsize \<Rightarrow> qsize" where
  \<comment> \<open>\<open>QSize::scaled(s, Qt.KeepAspectRatio)\<close>\<close>
  "size_scaled_keep_aspect sz s =
     (if fst sz = 0 \<or> snd sz = 0 then s
      else let rw = cdiv (snd s * fst sz) (snd sz)
           in if rw \<le> fst s then (rw, snd s)
              else (fst s, cdiv (fst s * snd sz) (fst sz)))"

section \<open>Coordinate mapper\<close>

text \<open>
  \<open>get_original_point_from_display\<close> and \<open>get_display_point_from_original\<close> are written
  twice in drag_generator.py, in \<open>SingleImageDisplayLabel\<close> (lines 70-110) and in
  \<open>CombinedImageLabel\<close> (lines 300-348). The two copies differ only in the name of the
  pixmap attribute, so one definition of each, taking the pixmap and the drawn rectangle,
  serves both classes.
\<close>

definition drawn_rect_for :: "qpixmap \<Rightarrow> qrect \<Rightarrow> qrect" where
  \<comment> \<open>the rectangle \<open>update_display\<close> computes for a pixmap that is not null\<close>
  "drawn_rect_for pm label_rect =
     rect_moveCenter (rect_of (0, 0) (size_scaled_keep_aspect pm (rect_size label_rect)))
       (rect_center label_rect)"

definition get_original_point_from_display :: "qpixmap \<Rightarrow> qrect \<Rightarrow> qpoint \<Rightarrow> qpoint option" where
  "get_original_point_from_display pm r display_point =
     (if pixmap_isNull pm \<or> rect_isNull r then None
      else if \<not> rect_contains r display_point then None
      else
        let x_on_scaled = fst display_point - rect_x r;
            y_on_scaled = snd display_point - rect_y r;
            scale_x = py_truediv (pixmap_width pm) (rect_width r);
            scale_y = py_truediv (pixmap_height pm) (rect_height r);
            original_x = py_int (py_mul_int_float x_on_scaled scale_x);
            original_y = py_int (py_mul_int_float y_on_scaled scale_y);
            original_x' = max 0 (min original_x (pixmap_width pm - 1));
            original_y' = max 0 (min original_y (pixmap_height pm - 1))
        in Some (original_x', original_y'))"

definition get_display_point_from_original :: "qpixmap \<Rightarrow> qrect \<Rightarrow> qpoint \<Rightarrow> qpoint option" where
  "get_display_point_from_original pm r original_point =
     (if pixmap_isNull pm \<or> rect_isNull r then None
      else
        let scale_x = py_truediv (rect_width r) (pixmap_width pm);
            scale_y = py_truediv (rect_height r) (pixmap_height pm);
            x_scaled = py_int (py_mul_int_float (fst original_point) scale_x);
            y_scaled = py_int (py_mul_int_float (snd original_point) scale_y);
            x_display = rect_x r + x_scaled;
            y_display = rect_y r + y_scaled
        in Some (x_display, y_display))"

text \<open>
  The coordinate mapper in the words of the specification (section 4.1): \<open>toOriginal\<close>
  returns none if the display point lies outside the drawn rectangle, otherwise it rescales
  by \<open>originalSize / drawnSize\<close> per axis and clamps the result to
  \<open>[0, originalDimension - 1]\<close>. The drawn rectangle is given by its corner and its size;
  the original image by its size. The rescaling is linear in exact arithmetic: the
  coordinate times the exact ratio, cut to the integer pixel it falls in. None of these
  definitions uses the float operations of the source.
\<close>

definition spec_clamp :: "int \<Rightarrow> int \<Rightarrow> int \<Rightarrow> int" where
  "spec_clamp lo hi v = (if v < lo then lo else if hi < v then hi else v)"

definition spec_rescale :: "int \<Rightarrow> int \<Rightarrow> int \<Rightarrow> int" where
  "spec_rescale v originalSize drawnSize =
     (let exact = (of_int v :: rat) * (of_int originalSize / of_int drawnSize)
      in if 0 \<le> exact then \<lfloor>exact\<rfloor> else \<lceil>exact\<rceil>)"

definition spec_toOriginal :: "qsize \<Rightarrow> qpoint \<Rightarrow> qsize \<Rightarrow> qpoint \<Rightarrow> qpoint option" where
  "spec_toOriginal original corner drawn p =
     (if fst p < fst corner \<or> fst corner + fst drawn \<le> fst p \<or>
         snd p < snd corner \<or> snd corner + snd drawn \<le> snd p
      then None
      else Some (spec_clamp 0 (fst original - 1) (spec_rescale (fst p - fst corner) (fst original) (fst drawn)),
                 spec_clamp 0 (snd original - 1) (spec_rescale (snd p - snd corner) (snd original) (snd drawn))))"

section \<open>Mouse events and hit testing\<close>

datatype mouse_button = LeftButton | RightButton | MiddleButton

datatype cursor_shape = ArrowCursor | CrossCursor | OpenHandCursor | ClosedHandCursor

record mouse_event =
  ev_pos :: qpoint
  ev_button :: mouse_button
  ev_left_held :: bool

text \<open>
  The test \<open>p_display and (event.pos() - p_display).manhattanLength() < 15\<close> of the mouse
  handlers, for one stored point.
\<close>

definition hits :: "qpixmap \<Rightarrow> qrect \<Rightarrow> qpoint \<Rightarrow> qpoint \<Rightarrow> bool" where
  "hits pm r click p_orig =
     (case get_display_point_from_original pm r p_orig of
        None \<Rightarrow> False
      | Some p_display \<Rightarrow> truthy_point p_display \<and> manhattanLength (point_diff click p_display) < 15)"

text \<open>
  The loop \<open>for i, p_orig in enumerate(points): if <test>: ...; break\<close>: the index of the
  first point that passes the test.
\<close>

fun first_hit :: "('a \<Rightarrow> bool) \<Rightarrow> 'a list \<Rightarrow> nat option" where
  "first_hit f [] = None"
| "first_hit f (p # ps) = (if f p then Some 0 else map_option Suc (first_hit f ps))"

text \<open>
  The hit test in the words of the specification (section 4.1): a screen point is on an
  annotated point if the Manhattan distance between it and the display projection of that
  point is below the threshold of 15 pixels.
\<close>

definition within_threshold :: "qpixmap \<Rightarrow> qrect \<Rightarrow> qpoint \<Rightarrow> qpoint \<Rightarrow> bool" where
  "within_threshold pm r screen_point p_orig =
     (case get_display_point_from_original pm r p_orig of
        None \<Rightarrow> False
      | Some p_display \<Rightarrow> manhattanLength (point_diff screen_point p_display) < 15)"

text \<open>The truth value of \<open>get_original_point_from_display(...)\<close> in \<open>if not original_pos\<close>.\<close>

fun truthy_opt_point :: "qpoint option \<Rightarrow> bool" where
  "truthy_opt_point None = False"
| "truthy_opt_point (Some p) = truthy_point p"

section \<open>Point annotation session\<close>

text \<open>
  The state of a \<open>SingleImageDisplayLabel\<close>. \<open>points_changed\<close> records the payloads of the
  signal of that name, oldest first.
\<close>

record single_label =
  original_pixmap :: qpixmap
  current_points :: "qpoint list"
  sl_dragging_point_index :: int
  point_mode_enabled :: bool
  sl_drawn_pixmap_rect :: qrect
  sl_cursor :: cursor_shape
  points_changed :: "qpoint list list"

definition sl_init :: single_label where
  "sl_init = \<lparr>original_pixmap = null_pixmap, current_points = [],
              sl_dragging_point_index = - 1, point_mode_enabled = False,
              sl_drawn_pixmap_rect = null_rect, sl_cursor = ArrowCursor,
              points_changed = []\<rparr>"

definition sl_update_display :: "single_label \<Rightarrow> qrect \<Rightarrow> single_label" where
  "sl_update_display s label_rect =
     (if \<not> pixmap_isNull (original_pixmap s)
      then s\<lparr>sl_drawn_pixmap_rect := drawn_rect_for (original_pixmap s) label_rect\<rparr>
      else s\<lparr>sl_drawn_pixmap_rect := null_rect\<rparr>)"

text \<open>
  \<open>set_image\<close>: \<open>loaded\<close> is \<open>Some pm\<close> when the path is given and exists, \<open>pm\<close> being what
  \<open>QPixmap(image_path)\<close> loads (a null pixmap when the file is no image).
\<close>

definition sl_set_image :: "single_label \<Rightarrow> qpixmap option \<Rightarrow> qrect \<Rightarrow> single_label" where
  "sl_set_image s loaded label_rect =
     (let s1 = s\<lparr>current_points := []\<rparr>;
          s2 = (case loaded of
                  Some pm \<Rightarrow> sl_update_display (s1\<lparr>original_pixmap := pm\<rparr>) label_rect
                | None \<Rightarrow> s1\<lparr>original_pixmap := null_pixmap\<rparr>)
      in s2\<lparr>points_changed := points_changed s2 @ [current_points s2]\<rparr>)"

definition sl_mousePressEvent :: "single_label \<Rightarrow> mouse_event \<Rightarrow> single_label" where
  "sl_mousePressEvent s event =
     (if \<not> point_mode_enabled s \<or> pixmap_isNull (original_pixmap s) then s
      else
        let original_pos = get_original_point_from_display (original_pixmap s)
                             (sl_drawn_pixmap_rect s) (ev_pos event)
        in if \<not> truthy_opt_point original_pos then s
           else if ev_button event = LeftButton then
             (case first_hit (hits (original_pixmap s) (sl_drawn_pixmap_rect s) (ev_pos event))
                     (current_points s) of
                Some i \<Rightarrow> s\<lparr>sl_dragging_point_index := int i,
                             points_changed := points_changed s @ [current_points s]\<rparr>
              | None \<Rightarrow>
                  let pts = current_points s @ [the original_pos]
                  in s\<lparr>sl_dragging_point_index := - 1, current_points := pts,
                        points_changed := points_changed s @ [pts]\<rparr>)
           else if ev_button event = RightButton then
             (case first_hit (hits (original_pixmap s) (sl_drawn_pixmap_rect s) (ev_pos event))
                     (current_points s) of
                Some i \<Rightarrow>
                  let pts = py_pop (current_points s) i
                  in s\<lparr>current_points := pts, points_changed := points_changed s @ [pts]\<rparr>
              | None \<Rightarrow> s)
           else s)"

definition sl_mouseMoveEvent :: "single_label \<Rightarrow> mouse_event \<Rightarrow> py_error + single_label" where
  "sl_mouseMoveEvent s event =
     (if \<not> point_mode_enabled s \<or> pixmap_isNull (original_pixmap s) then Inr s
      else if sl_dragging_point_index s \<noteq> - 1 \<and> ev_left_held event then
        (let new_original_pos = get_original_point_from_display (original_pixmap s)
                                  (sl_drawn_pixmap_rect s) (ev_pos event)
         in if truthy_opt_point new_original_pos then
              (case py_setitem (current_points s) (sl_dragging_point_index s) (the new_original_pos) of
                 Inl e \<Rightarrow> Inl e
               | Inr pts \<Rightarrow> Inr (s\<lparr>current_points := pts,
                                     points_changed := points_changed s @ [pts]\<rparr>))
            else Inr s)
      else if list_ex (hits (original_pixmap s) (sl_drawn_pixmap_rect s) (ev_pos event))
                (current_points s)
        then Inr (s\<lparr>sl_cursor := OpenHandCursor\<rparr>)
        else Inr (s\<lparr>sl_cursor := CrossCursor\<rparr>))"

definition sl_mouseReleaseEvent :: "single_label \<Rightarrow> single_label" where
  "sl_mouseReleaseEvent s =
     (if \<not> point_mode_enabled s then s
      else s\<lparr>sl_dragging_point_index := - 1, sl_cursor := ArrowCursor,
             points_changed := points_changed s @ [current_points s]\<rparr>)"

definition set_point_mode_enabled :: "single_label \<Rightarrow> bool \<Rightarrow> single_label" where
  "set_point_mode_enabled s enabled =
     (if \<not> enabled then s\<lparr>point_mode_enabled := enabled, sl_cursor := ArrowCursor\<rparr>
      else s\<lparr>point_mode_enabled := enabled\<rparr>)"

definition reset_points :: "single_label \<Rightarrow> single_label" where
  "reset_points s = s\<lparr>current_points := [], points_changed := points_changed s @ [[]]\<rparr>"

section \<open>Mask annotation session\<close>

text \<open>
  The state of a \<open>CombinedImageLabel\<close>. \<open>mask_points_changed\<close> records the payloads of the
  signal of that name, oldest first.
\<close>

record combined_label =
  pixmap1 :: qpixmap
  pixmap2 :: qpixmap
  combined_pixmap :: qpixmap
  mask_points :: "qpoint list"
  cl_dragging_point_index :: int
  mask_mode_enabled :: bool
  cl_drawn_pixmap_rect :: qrect
  cl_cursor :: cursor_shape
  mask_points_changed :: "qpoint list list"

definition cl_init :: combined_label where
  "cl_init = \<lparr>pixmap1 = null_pixmap, pixmap2 = null_pixmap, combined_pixmap = null_pixmap,
              mask_points = [], cl_dragging_point_index = - 1, mask_mode_enabled = False,
              cl_drawn_pixmap_rect = null_rect, cl_cursor = ArrowCursor,
              mask_points_changed = []\<rparr>"

definition cl_update_display :: "combined_label \<Rightarrow> qrect \<Rightarrow> combined_label" where
  "cl_update_display s label_rect =
     (if \<not> pixmap_isNull (combined_pixmap s)
      then s\<lparr>cl_drawn_pixmap_rect := drawn_rect_for (combined_pixmap s) label_rect\<rparr>
      else s\<lparr>cl_drawn_pixmap_rect := null_rect\<rparr>)"

definition combine_pixmaps :: "combined_label \<Rightarrow> qrect \<Rightarrow> combined_label" where
  "combine_pixmaps s label_rect =
     (if pixmap_isNull (pixmap1 s) \<or> pixmap_isNull (pixmap2 s)
      then s\<lparr>combined_pixmap := null_pixmap, cl_drawn_pixmap_rect := null_rect\<rparr>
      else cl_update_display (s\<lparr>combined_pixmap := pixmap1 s\<rparr>) label_rect)"

definition set_images :: "combined_label \<Rightarrow> qpixmap \<Rightarrow> qpixmap \<Rightarrow> qrect \<Rightarrow> combined_label" where
  "set_images s pm1 pm2 label_rect =
     combine_pixmaps (s\<lparr>mask_points := [], pixmap1 := pm1, pixmap2 := pm2\<rparr>) label_rect"

definition cl_mousePressEvent :: "combined_label \<Rightarrow> mouse_event \<Rightarrow> combined_label" where
  "cl_mousePressEvent s event =
     (if \<not> mask_mode_enabled s \<or> pixmap_isNull (combined_pixmap s) then s
      else
        let original_pos = get_original_point_from_display (combined_pixmap s)
                             (cl_drawn_pixmap_rect s) (ev_pos event)
        in if \<not> truthy_opt_point original_pos then s
           else if ev_button event = LeftButton then
             (case first_hit (hits (combined_pixmap s) (cl_drawn_pixmap_rect s) (ev_pos event))
                     (mask_points s) of
                Some i \<Rightarrow> s\<lparr>cl_dragging_point_index := int i, cl_cursor := ClosedHandCursor\<rparr>
              | None \<Rightarrow>
                  if length (mask_points s) < 4 then
                    (let pts = mask_points s @ [the original_pos]
                     in if length pts = 4
                        then s\<lparr>cl_dragging_point_index := - 1, mask_points := pts,
                               mask_points_changed := mask_points_changed s @ [pts]\<rparr>
                        else s\<lparr>cl_dragging_point_index := - 1, mask_points := pts\<rparr>)
                  else s\<lparr>cl_dragging_point_index := - 1\<rparr>)
           else s)"

definition cl_mouseMoveEvent :: "combined_label \<Rightarrow> mouse_event \<Rightarrow> py_error + combined_label" where
  "cl_mouseMoveEvent s event =
     (if \<not> mask_mode_enabled s \<or> pixmap_isNull (combined_pixmap s) then Inr s
      else if cl_dragging_point_index s \<noteq> - 1 \<and> ev_left_held event then
        (let new_original_pos = get_original_point_from_display (combined_pixmap s)
                                  (cl_drawn_pixmap_rect s) (ev_pos event)
         in if truthy_opt_point new_original_pos then
              (case py_setitem (mask_points s) (cl_dragging_point_index s) (the new_original_pos) of
                 Inl e \<Rightarrow> Inl e
               | Inr pts \<Rightarrow> Inr (s\<lparr>mask_points := pts,
                                     mask_points_changed := mask_points_changed s @ [pts]\<rparr>))
            else Inr s)
      else if list_ex (hits (combined_pixmap s) (cl_drawn_pixmap_rect s) (ev_pos event))
                (mask_points s)
        then Inr (s\<lparr>cl_cursor := OpenHandCursor\<rparr>)
        else Inr (s\<lparr>cl_cursor := CrossCursor\<rparr>))"

definition cl_mouseReleaseEvent :: "combined_label \<Rightarrow> combined_label" where
  "cl_mouseReleaseEvent s =
     (if \<not> mask_mode_enabled s then s
      else s\<lparr>cl_dragging_point_index := - 1, cl_cursor := ArrowCursor,
             mask_points_changed := mask_points_changed s @ [mask_points s]\<rparr>)"

definition set_mask_mode_enabled :: "combined_label \<Rightarrow> bool \<Rightarrow> combined_label" where
  "set_mask_mode_enabled s enabled =
     (if \<not> enabled then s\<lparr>mask_mode_enabled := enabled, cl_cursor := ArrowCursor\<rparr>
      else s\<lparr>mask_mode_enabled := enabled\<rparr>)"

definition reset_mask :: "combined_label \<Rightarrow> combined_label" where
  "reset_mask s = s\<lparr>mask_points := [], mask_points_changed := mask_points_changed s @ [[]]\<rparr>"

text \<open>The operations of a mask annotation session, and a session as a sequence of them.\<close>

datatype mask_op =
  SetImages qpixmap qpixmap qrect
  | Resize qrect
  | Press mouse_event
  | Move mouse_event
  | Release
  | SetMaskMode bool
  | ResetMask

fun mask_step :: "combined_label \<Rightarrow> mask_op \<Rightarrow> py_error + combined_label" where
  "mask_step s (SetImages pm1 pm2 label_rect) = Inr (set_images s pm1 pm2 label_rect)"
| "mask_step s (Resize label_rect) = Inr (cl_update_display s label_rect)"
| "mask_step s (Press event) = Inr (cl_mousePressEvent s event)"
| "mask_step s (Move event) = cl_mouseMoveEvent s event"
| "mask_step s Release = Inr (cl_mouseReleaseEvent s)"
| "mask_step s (SetMaskMode enabled) = Inr (set_mask_mode_enabled s enabled)"
| "mask_step s ResetMask = Inr (reset_mask s)"

fun mask_run :: "combined_label \<Rightarrow> mask_op list \<Rightarrow> py_error + combined_label" where
  "mask_run s [] = Inr s"
| "mask_run s (x # xs) = (case mask_step s x of Inl e \<Rightarrow> Inl e | Inr s' \<Rightarrow> mask_run s' xs)"

section \<open>Save readiness\<close>

text \<open>
  The fields of \<open>ImageSelectionWindow\<close> that the save-readiness check and the save action read.
  A frame path is \<open>None\<close> until a frame is chosen. \<open>save_button_enabled\<close> stands for
  the enabled flag of the widget \<open>save_button\<close>.
\<close>

record window =
  image_path_frame1 :: "string option"
  image_path_frame2 :: "string option"
  mask_points_on_combined :: "qpoint list"
  source_points_on_frame1 :: "qpoint list"
  target_points_on_frame2 :: "qpoint list"
  save_button_enabled :: bool

text \<open>Python's truth value of an attribute that holds \<open>None\<close> or a \<open>str\<close>.\<close>

fun truthy_path :: "string option \<Rightarrow> bool" where
  "truthy_path None = False"
| "truthy_path (Some s) = (s \<noteq> [])"

text \<open>\<open>ImageSelectionWindow.check_save_button_status\<close> (drag_generator.py, 1028-1035).\<close>

definition check_save_button_status :: "window \<Rightarrow> window" where
  "check_save_button_status w =
     (if truthy_path (image_path_frame1 w) \<and> truthy_path (image_path_frame2 w) \<and>
         length (mask_points_on_combined w) = 4 \<and>
         length (source_points_on_frame1 w) > 0 \<and>
         length (source_points_on_frame1 w) = length (target_points_on_frame2 w)
      then w\<lparr>save_button_enabled := True\<rparr>
      else w\<lparr>save_button_enabled := False\<rparr>)"

section \<open>Python strings\<close>

text \<open>
  A \<open>str\<close> is modelled by the bytes of its UTF-8 encoding. The string methods the source
  calls are modelled on that representation; \<open>lower\<close> changes the ASCII capitals only,
  which decides \<open>endswith\<close> for the ASCII extensions it is used with.
\<close>

definition startswith :: "string \<Rightarrow> string \<Rightarrow> bool" where
  "startswith s p = (take (length p) s = p)"

definition endswith :: "string \<Rightarrow> string \<Rightarrow> bool" where
  "endswith s p = (length p \<le> length s \<and> drop (length s - length p) s = p)"

definition lower_char :: "char \<Rightarrow> char" where
  "lower_char c = (let n = (of_char c :: nat) in if 65 \<le> n \<and> n \<le> 90 then char_of (n + 32) else c)"

definition lower :: "string \<Rightarrow> string" where
  "lower s = map lower_char s"

text \<open>\<open>s.split(c)\<close> for a separator of one character, and \<open>sep.join(parts)\<close>.\<close>

fun split_on :: "char \<Rightarrow> string \<Rightarrow> string list" where
  "split_on c [] = [[]]"
| "split_on c (x # xs) =
     (if x = c then [] # split_on c xs
      else (case split_on c xs of [] \<Rightarrow> [[x]] | y # ys \<Rightarrow> (x # y) # ys))"

fun str_join :: "string \<Rightarrow> string list \<Rightarrow> string" where
  "str_join sep [] = []"
| "str_join sep [x] = x"
| "str_join sep (x # y # ys) = x @ sep @ str_join sep (y # ys)"

text \<open>\<open>s.rfind(c)\<close>: the index of the last occurrence of \<open>c\<close>, or \<open>-1\<close>.\<close>

definition rfind :: "char \<Rightarrow> string \<Rightarrow> int" where
  "rfind c s = (if List.member s c
                then int (length s) - 1 - int (length (takeWhile (\<lambda>x. x \<noteq> c) (rev s)))
                else - 1)"

definition rstrip :: "char \<Rightarrow> string \<Rightarrow> string" where
  "rstrip c s = rev (dropWhile (\<lambda>x. x = c) (rev s))"

definition replace_char :: "char \<Rightarrow> char \<Rightarrow> string \<Rightarrow> string" where
  "replace_char a b s = map (\<lambda>x. if x = a then b else x) s"

text \<open>\<open>k in s\<close> for two strings.\<close>

fun is_substring :: "string \<Rightarrow> string \<Rightarrow> bool" where
  "is_substring k [] = (k = [])"
| "is_substring k (x # xs) = (startswith (x # xs) k \<or> is_substring k xs)"

section \<open>posixpath\<close>

text \<open>
  The functions of \<open>os.path\<close> that the source calls, as \<open>posixpath\<close> of the standard
  library defines them. \<open>abspath\<close> and \<open>relpath\<close> read the working directory, which is a
  parameter here. \<open>path_join\<close> is \<open>os.path.join\<close> for two arguments.
\<close>

definition isabs :: "string \<Rightarrow> bool" where
  "isabs p = startswith p ''/''"

definition path_join :: "string \<Rightarrow> string \<Rightarrow> string" where
  "path_join a b =
     (if startswith b ''/'' then b
      else if a = [] \<or> endswith a ''/'' then a @ b
      else a @ ''/'' @ b)"

definition basename :: "string \<Rightarrow> string" where
  "basename p = drop (nat (rfind CHR ''/'' p + 1)) p"

definition dirname :: "string \<Rightarrow> string" where
  "dirname p =
     (let i = nat (rfind CHR ''/'' p + 1); head = take i p
      in if head \<noteq> [] \<and> head \<noteq> replicate (length head) CHR ''/''
         then rstrip CHR ''/'' head else head)"

text \<open>
  \<open>splitext\<close> splits at the last dot of the last component, unless only dots precede it
  in that component.
\<close>

definition splitext :: "string \<Rightarrow> string \<times> string" where
  "splitext p =
     (let sepIndex = rfind CHR ''/'' p; dotIndex = rfind CHR ''.'' p
      in if sepIndex < dotIndex \<and>
            list_ex (\<lambda>c. c \<noteq> CHR ''.'')
              (take (nat (dotIndex - (sepIndex + 1))) (drop (nat (sepIndex + 1)) p))
         then (take (nat dotIndex) p, drop (nat dotIndex) p)
         else (p, []))"

text \<open>
  \<open>normpath\<close> drops empty and \<open>.\<close> components and resolves \<open>..\<close> against the component
  before it; \<open>normpath_step\<close> is the body of its loop over the components.
\<close>

definition normpath_step :: "nat \<Rightarrow> string list \<Rightarrow> string \<Rightarrow> string list" where
  "normpath_step initial_slashes new_comps part =
     (if part = [] \<or> part = ''.'' then new_comps
      else if part \<noteq> ''..'' \<or> (initial_slashes = 0 \<and> new_comps = []) \<or>
              (new_comps \<noteq> [] \<and> last new_comps = ''..'')
        then new_comps @ [part]
      else if new_comps \<noteq> [] then butlast new_comps
      else new_comps)"

definition normpath :: "string \<Rightarrow> string" where
  "normpath p =
     (if p = [] then ''.''
      else
        let initial_slashes =
              (if startswith p ''/''
               then (if startswith p ''//'' \<and> \<not> startswith p ''///'' then 2 else 1)
               else (0::nat));
            new_comps = foldl (normpath_step initial_slashes) [] (split_on CHR ''/'' p);
            path = replicate initial_slashes CHR ''/'' @ str_join ''/'' new_comps
        in if path = [] then ''.'' else path)"

definition abspath :: "string \<Rightarrow> string \<Rightarrow> string" where
  "abspath cwd p = normpath (if isabs p then p else path_join cwd p)"

fun common_prefix_len :: "'a list \<Rightarrow> 'a list \<Rightarrow> nat" where
  "common_prefix_len (x # xs) (y # ys) = (if x = y then Suc (common_prefix_len xs ys) else 0)"
| "common_prefix_len _ _ = 0"

definition path_components :: "string \<Rightarrow> string list" where
  "path_components p = filter (\<lambda>x. x \<noteq> []) (split_on CHR ''/'' p)"

definition relpath :: "string \<Rightarrow> string \<Rightarrow> string \<Rightarrow> py_error + string" where
  "relpath cwd path start =
     (if path = [] then Inl ValueError
      else
        let start_list = path_components (abspath cwd start);
            path_list = path_components (abspath cwd path);
            i = common_prefix_len start_list path_list;
            rel_list = replicate (length start_list - i) ''..'' @ drop i path_list
        in case rel_list of
             [] \<Rightarrow> Inr ''.''
           | a # ps \<Rightarrow> Inr (foldl path_join a ps))"

section \<open>JSON values and files\<close>

text \<open>
  What \<open>json.load\<close> returns: \<open>None\<close>, a \<open>bool\<close>, a number (integers only here), a
  \<open>str\<close>, a \<open>list\<close> or a \<open>dict\<close>. A \<open>dict\<close> is the list of its items in insertion
  order, with distinct keys. The functions below are the operations the source applies to
  such a value, with the exception Python raises where the type does not support them.
\<close>

datatype json =
  JNull | JBool bool | JNum int | JStr string | JArr "json list" | JObj "(string \<times> json) list"

fun py_truthy :: "json \<Rightarrow> bool" where
  "py_truthy JNull = False"
| "py_truthy (JBool b) = b"
| "py_truthy (JNum n) = (n \<noteq> 0)"
| "py_truthy (JStr s) = (s \<noteq> [])"
| "py_truthy (JArr xs) = (xs \<noteq> [])"
| "py_truthy (JObj d) = (d \<noteq> [])"

text \<open>\<open>d[k] = v\<close> on a \<open>dict\<close>: a present key keeps its position, a new key goes last.\<close>

fun dict_set :: "(string \<times> json) list \<Rightarrow> string \<Rightarrow> json \<Rightarrow> (string \<times> json) list" where
  "dict_set [] k v = [(k, v)]"
| "dict_set ((k', v') # d) k v = (if k' = k then (k, v) # d else (k', v') # dict_set d k v)"

text \<open>\<open>k in data\<close>, \<open>data[k]\<close>, \<open>data.get(k)\<close> (on a \<open>dict\<close>) and \<open>data[k] = v\<close> for a string \<open>k\<close>.\<close>

fun py_contains :: "json \<Rightarrow> string \<Rightarrow> py_error + bool" where
  "py_contains (JObj d) k = Inr (map_of d k \<noteq> None)"
| "py_contains (JArr xs) k = Inr (List.member xs (JStr k))"
| "py_contains (JStr s) k = Inr (is_substring k s)"
| "py_contains _ k = Inl TypeError"

fun py_getitem :: "json \<Rightarrow> string \<Rightarrow> py_error + json" where
  "py_getitem (JObj d) k = (case map_of d k of None \<Rightarrow> Inl KeyError | Some v \<Rightarrow> Inr v)"
| "py_getitem _ k = Inl TypeError"

fun py_truthy_opt :: "json option \<Rightarrow> bool" where
  "py_truthy_opt None = False"
| "py_truthy_opt (Some v) = py_truthy v"

fun py_get :: "json \<Rightarrow> string \<Rightarrow> json option" where
  "py_get (JObj d) k = map_of d k"
| "py_get _ k = None"

fun py_setitem_str :: "json \<Rightarrow> string \<Rightarrow> json \<Rightarrow> py_error + json" where
  "py_setitem_str (JObj d) k v = Inr (JObj (dict_set d k v))"
| "py_setitem_str _ k v = Inl TypeError"

section \<open>File system\<close>

text \<open>
  The directory tree the two programs work on. A regular file is represented by what
  reading it gives: bytes that are not valid UTF-8, text that is not JSON, a JSON
  document, or an image (numbered, for the captioning model to tell images apart). A
  directory lists its entries in the order \<open>os.listdir\<close> and \<open>os.walk\<close> report them. There
  are no symbolic links: a path names the node that its normalised absolute path leads to
  from the root of the tree.
\<close>

datatype file_content = InvalidUtf8 | InvalidJson | JsonDoc json | ImageFile nat

datatype node = File file_content | Dir "(string \<times> node) list"

fun lookup :: "node \<Rightarrow> string list \<Rightarrow> node option"
  and lookup_entries :: "(string \<times> node) list \<Rightarrow> string \<Rightarrow> string list \<Rightarrow> node option" where
  "lookup n [] = Some n"
| "lookup (File c) (x # xs) = None"
| "lookup (Dir es) (x # xs) = lookup_entries es x xs"
| "lookup_entries [] x xs = None"
| "lookup_entries (e # es) x xs = (if fst e = x then lookup (snd e) xs else lookup_entries es x xs)"

text \<open>
  Why a path given by its components leads to no node: it runs through a regular file
  (\<open>NotADirectoryError\<close>), or a component is missing (\<open>FileNotFoundError\<close>).
\<close>

fun lookup_error :: "node \<Rightarrow> string list \<Rightarrow> py_error"
  and lookup_entries_error :: "(string \<times> node) list \<Rightarrow> string \<Rightarrow> string list \<Rightarrow> py_error" where
  "lookup_error n [] = FileNotFoundError"
| "lookup_error (File c) (x # xs) = NotADirectoryError"
| "lookup_error (Dir es) (x # xs) = lookup_entries_error es x xs"
| "lookup_entries_error [] x xs = FileNotFoundError"
| "lookup_entries_error (e # es) x xs =
     (if fst e = x then lookup_error (snd e) xs else lookup_entries_error es x xs)"

text \<open>
  \<open>open(path, 'w')\<close> at a path given by its components: an existing regular file is
  replaced and a new file is created in an existing directory. It raises
  \<open>IsADirectoryError\<close> when the path names a directory, \<open>NotADirectoryError\<close> when
  it runs through a regular file, and \<open>FileNotFoundError\<close> when a folder on the way is
  missing.
\<close>

fun put :: "node \<Rightarrow> string list \<Rightarrow> file_content \<Rightarrow> py_error + node"
  and put_entries :: "(string \<times> node) list \<Rightarrow> string \<Rightarrow> string list \<Rightarrow> file_content
                       \<Rightarrow> py_error + (string \<times> node) list" where
  "put (File c0) [] c = Inr (File c)"
| "put (Dir es) [] c = Inl IsADirectoryError"
| "put (File c0) (x # xs) c = Inl NotADirectoryError"
| "put (Dir es) (x # xs) c =
     (case put_entries es x xs c of Inl err \<Rightarrow> Inl err | Inr es' \<Rightarrow> Inr (Dir es'))"
| "put_entries [] x xs c = (if xs = [] then Inr [(x, File c)] else Inl FileNotFoundError)"
| "put_entries (e # es) x xs c =
     (if fst e = x
      then (case put (snd e) xs c of Inl err \<Rightarrow> Inl err | Inr n \<Rightarrow> Inr ((x, n) # es))
      else (case put_entries es x xs c of Inl err \<Rightarrow> Inl err | Inr es' \<Rightarrow> Inr (e # es')))"

text \<open>The paths of the regular files of a tree, each as its list of components.\<close>

fun file_paths :: "node \<Rightarrow> string list list"
  and entries_file_paths :: "(string \<times> node) list \<Rightarrow> string list list" where
  "file_paths (File c) = [[]]"
| "file_paths (Dir es) = entries_file_paths es"
| "entries_file_paths [] = []"
| "entries_file_paths (e # es) = map (\<lambda>p. fst e # p) (file_paths (snd e)) @ entries_file_paths es"

text \<open>
  One \<open>json.dump(data, f, indent=..., ensure_ascii=...)\<close> into a file opened for writing
  with \<open>encoding=...\<close>: the path, the encoding, the two keyword arguments and the data, as
  the caller passed them. The environment keeps the working directory, the tree and the
  log of such writes.
\<close>

record json_write =
  jw_path :: string
  jw_encoding :: string
  jw_indent :: nat
  jw_ensure_ascii :: bool
  jw_data :: json

record env =
  cwd :: string
  fs_root :: node
  write_log :: "json_write list"

text \<open>
  \<open>open_read\<close> is \<open>open(p, 'r')\<close> (and the read side of \<open>'r+'\<close>), with the exception
  Python raises when the path names no regular file. \<open>json_load\<close> is \<open>json.load\<close> on the
  opened text file. \<open>json_dump_to env p encoding v indent ensure_ascii\<close> is
  \<open>json.dump(v, f, indent=indent, ensure_ascii=ensure_ascii)\<close> into the file at \<open>p\<close>,
  created or truncated and opened with that encoding. An image read as text is not valid
  UTF-8.
\<close>

definition resolve :: "env \<Rightarrow> string \<Rightarrow> node option" where
  "resolve env p = lookup (fs_root env) (path_components (abspath (cwd env) p))"

definition resolve_error :: "env \<Rightarrow> string \<Rightarrow> py_error" where
  "resolve_error env p = lookup_error (fs_root env) (path_components (abspath (cwd env) p))"

definition open_read :: "env \<Rightarrow> string \<Rightarrow> py_error + file_content" where
  "open_read env p =
     (case resolve env p of
        None \<Rightarrow> Inl (resolve_error env p)
      | Some (Dir es) \<Rightarrow> Inl IsADirectoryError
      | Some (File c) \<Rightarrow> Inr c)"

definition json_load :: "file_content \<Rightarrow> py_error + json" where
  "json_load c =
     (case c of
        InvalidUtf8 \<Rightarrow> Inl UnicodeDecodeError
      | ImageFile i \<Rightarrow> Inl UnicodeDecodeError
      | InvalidJson \<Rightarrow> Inl JSONDecodeError
      | JsonDoc v \<Rightarrow> Inr v)"

definition json_dump_to :: "env \<Rightarrow> string \<Rightarrow> string \<Rightarrow> json \<Rightarrow> nat \<Rightarrow> bool \<Rightarrow> py_error + env" where
  "json_dump_to env p encoding v indent ensure_ascii =
     (case put (fs_root env) (path_components (abspath (cwd env) p)) (JsonDoc v) of
        Inl err \<Rightarrow> Inl err
      | Inr r \<Rightarrow> Inr (env\<lparr>fs_root := r,
                           write_log := write_log env @
                             [\<lparr>jw_path = p, jw_encoding = encoding, jw_indent = indent,
                               jw_ensure_ascii = ensure_ascii, jw_data = v\<rparr>]\<rparr>))"

text \<open>
  \<open>os.walk(top)\<close>, top down: for each directory its path, the names of its
  subdirectories and the names of its other entries. A top that is no directory yields
  nothing.
\<close>

fun walk :: "string \<Rightarrow> node \<Rightarrow> (string \<times> string list \<times> string list) list"
  and walk_entries :: "string \<Rightarrow> (string \<times> node) list \<Rightarrow> (string \<times> string list \<times> string list) list" where
  "walk dirpath (File c) = []"
| "walk dirpath (Dir es) =
     (dirpath, map fst (filter (\<lambda>e. case snd e of Dir x \<Rightarrow> True | File c \<Rightarrow> False) es),
           map fst (filter (\<lambda>e. case snd e of Dir x \<Rightarrow> False | File c \<Rightarrow> True) es))
     # walk_entries dirpath es"
| "walk_entries dirpath [] = []"
| "walk_entries dirpath (e # es) = walk (path_join dirpath (fst e)) (snd e) @ walk_entries dirpath es"

definition os_walk :: "env \<Rightarrow> string \<Rightarrow> (string \<times> string list \<times> string list) list" where
  "os_walk env dirpath = (case resolve env dirpath of None \<Rightarrow> [] | Some n \<Rightarrow> walk dirpath n)"

definition os_listdir :: "env \<Rightarrow> string \<Rightarrow> py_error + string list" where
  "os_listdir env p =
     (case resolve env p of
        None \<Rightarrow> Inl (resolve_error env p)
      | Some (File c) \<Rightarrow> Inl NotADirectoryError
      | Some (Dir es) \<Rightarrow> Inr (map fst es))"

definition isdir :: "env \<Rightarrow> string \<Rightarrow> bool" where
  "isdir env p = (case resolve env p of Some (Dir es) \<Rightarrow> True | _ \<Rightarrow> False)"


section \<open>Web viewer (app.py)\<close>

text \<open>
  \<open>find_files\<close> (lines 19-43), \<open>describe_images\<close> (lines 71-102) and
  \<open>update_caption\<close> (lines 149-170). A request is given by the values that
  \<open>data.get(...)\<close> returns for its fields, \<open>None\<close> for a missing field.
\<close>

definition BASE_DIR :: string where
  "BASE_DIR = ''data''"

definition STATIC_DATA_DIR :: string where
  "STATIC_DATA_DIR = ''static/data''"

text \<open>
  The body of the \<open>try\<close> block of \<open>find_files\<close> for one file name of one walked directory:
  \<open>Inr None\<close> when the file is left out, \<open>Inr (Some (data, captioned))\<close> when it is kept.
\<close>

text \<open>Sequencing of steps that may raise: the first exception ends the sequence.\<close>

definition bind_err :: "py_error + 'a \<Rightarrow> ('a \<Rightarrow> py_error + 'b) \<Rightarrow> py_error + 'b" where
  "bind_err m f = (case m of Inl e \<Rightarrow> Inl e | Inr x \<Rightarrow> f x)"

text \<open>\<open>all(key in data for key in keys)\<close>, which stops at the first key that is missing.\<close>

fun all_keys_in :: "json \<Rightarrow> string list \<Rightarrow> py_error + bool" where
  "all_keys_in data [] = Inr True"
| "all_keys_in data (k # ks) =
     bind_err (py_contains data k) (\<lambda>b. if b then all_keys_in data ks else Inr False)"

text \<open>
  \<open>os.path.join(root, v)\<close> raises \<open>TypeError\<close> unless \<open>v\<close> is a string.
  \<open>resolve_image_field\<close> is one of the two assignments
  \<open>data[k] = os.path.relpath(os.path.join(root, data[k]), start=BASE_DIR).replace(backslash, '/')\<close>.
\<close>

fun join_argument :: "json \<Rightarrow> py_error + string" where
  "join_argument (JStr s) = Inr s"
| "join_argument _ = Inl TypeError"

definition resolve_image_field :: "env \<Rightarrow> string \<Rightarrow> json \<Rightarrow> string \<Rightarrow> py_error + json" where
  "resolve_image_field env dirpath data k =
     bind_err (py_getitem data k) (\<lambda>v.
     bind_err (join_argument v) (\<lambda>s.
     bind_err (relpath (cwd env) (path_join dirpath s) BASE_DIR) (\<lambda>r.
     py_setitem_str data k (JStr (replace_char CHR 0x5C CHR ''/'' r)))))"

definition find_files_entry :: "env \<Rightarrow> string \<Rightarrow> string \<Rightarrow> py_error + (json \<times> bool) option" where
  "find_files_entry env dirpath file =
     (let json_path = path_join dirpath file in
      bind_err (open_read env json_path) (\<lambda>content.
      bind_err (json_load content) (\<lambda>data.
      bind_err (all_keys_in data [''frame1_image'', ''frame2_image'']) (\<lambda>has_both.
      if \<not> has_both then Inr None else
      bind_err (resolve_image_field env dirpath data ''frame1_image'') (\<lambda>data1.
      bind_err (resolve_image_field env dirpath data1 ''frame2_image'') (\<lambda>data2.
      bind_err (py_setitem_str data2 ''json_file_path'' (JStr json_path)) (\<lambda>data3.
      bind_err (py_setitem_str data3 ''directory_name'' (JStr (basename dirpath))) (\<lambda>data4.
      Inr (Some (data4, py_truthy_opt (py_get data4 ''caption'')))))))))))"

text \<open>
  The loop over the files of one directory, with the \<open>try ... except (json.JSONDecodeError,
  FileNotFoundError): continue\<close> around the body. Any other exception leaves \<open>find_files\<close>.
\<close>

fun find_files_dir :: "env \<Rightarrow> string \<Rightarrow> string list \<Rightarrow> json list \<times> json list
                         \<Rightarrow> py_error + json list \<times> json list" where
  "find_files_dir env dirpath [] acc = Inr acc"
| "find_files_dir env dirpath (file # files) acc =
     (if endswith file ''.json'' then
        (case find_files_entry env dirpath file of
           Inl e \<Rightarrow> (if e = JSONDecodeError \<or> e = FileNotFoundError
                      then find_files_dir env dirpath files acc else Inl e)
         | Inr None \<Rightarrow> find_files_dir env dirpath files acc
         | Inr (Some (data, captioned)) \<Rightarrow>
             find_files_dir env dirpath files
               (if captioned then (fst acc, snd acc @ [data]) else (fst acc @ [data], snd acc)))
      else find_files_dir env dirpath files acc)"

fun find_files_walk :: "env \<Rightarrow> (string \<times> string list \<times> string list) list \<Rightarrow> json list \<times> json list
                          \<Rightarrow> py_error + json list \<times> json list" where
  "find_files_walk env [] acc = Inr acc"
| "find_files_walk env (triple # rest) acc =
     (case find_files_dir env (fst triple) (snd (snd triple)) acc of
        Inl e \<Rightarrow> Inl e
      | Inr acc' \<Rightarrow> find_files_walk env rest acc')"

text \<open>\<open>find_files\<close> returns \<open>(data_without_caption, data_with_caption)\<close>.\<close>

definition find_files :: "env \<Rightarrow> py_error + json list \<times> json list" where
  "find_files env = find_files_walk env (os_walk env BASE_DIR) ([], [])"

text \<open>
  A JSON response with its status, its \<open>success\<close> field and its message, which is a
  literal of the source or the text of a caught exception.
\<close>

datatype message = Msg string | ExceptionText py_error

datatype response = Response (status: nat) (success: bool) (message: message)

text \<open>
  \<open>os.path.abspath(v)\<close> raises \<open>TypeError\<close> unless \<open>v\<close> is a string. \<open>patch_caption\<close> is
  the \<open>with open(json_file_path, 'r+', encoding='utf-8')\<close> block of \<open>update_caption\<close>; an
  exception in it, or before it inside the \<open>try\<close>, is answered with status 500.
\<close>

fun abspath_argument :: "json \<Rightarrow> py_error + string" where
  "abspath_argument (JStr s) = Inr s"
| "abspath_argument _ = Inl TypeError"

definition patch_caption :: "env \<Rightarrow> string \<Rightarrow> json \<Rightarrow> py_error + env" where
  "patch_caption env p caption =
     bind_err (open_read env p) (\<lambda>content.
     bind_err (json_load content) (\<lambda>file_data.
     bind_err (py_setitem_str file_data ''caption'' caption) (\<lambda>file_data'.
     json_dump_to env p ''utf-8'' file_data' 4 False)))"

definition update_caption :: "env \<Rightarrow> json option \<Rightarrow> json option \<Rightarrow> env \<times> response" where
  "update_caption env json_file_path caption =
     (if \<not> py_truthy_opt json_file_path \<or> caption = None \<or> caption = Some JNull
      then (env, Response 400 False (Msg ''Invalid data''))
      else
        case abspath_argument (the json_file_path) of
          Inl e \<Rightarrow> (env, Response 500 False (ExceptionText e))
        | Inr p \<Rightarrow>
            if \<not> startswith (abspath (cwd env) p) (abspath (cwd env) BASE_DIR)
            then (env, Response 403 False (Msg ''Access denied''))
            else
              (case patch_caption env p (the caption) of
                 Inl e \<Rightarrow> (env, Response 500 False (ExceptionText e))
               | Inr env' \<Rightarrow> (env', Response 200 True (Msg ''Caption updated successfully''))))"

text \<open>
  A path resolves inside the data root when the components of its absolute path start
  with the components of the absolute path of the root.
\<close>

definition resolves_inside :: "string \<Rightarrow> string \<Rightarrow> string \<Rightarrow> bool" where
  "resolves_inside cwd0 root_dir p =
     (let rs = path_components (abspath cwd0 root_dir); ps = path_components (abspath cwd0 p)
      in take (length rs) ps = rs)"

text \<open>
  The outcomes of \<open>describe_images\<close>: the success response with the two descriptions and
  the combined one, a failure response with its status, or an exception raised outside the
  \<open>try\<close> block. \<open>Image.open\<close> raises unless the path names an image file.
  \<open>label_first\<close> and \<open>label_second\<close> are the UTF-8 bytes of the two literals of the
  combined description.
\<close>

datatype describe_response =
  Described string string string
  | Failed nat message
  | Unhandled py_error

fun image_of :: "file_content \<Rightarrow> py_error + nat" where
  "image_of (ImageFile i) = Inr i"
| "image_of _ = Inl UnidentifiedImageError"

definition image_open :: "env \<Rightarrow> string \<Rightarrow> py_error + nat" where
  "image_open env p = bind_err (open_read env p) image_of"

definition label_first :: string where
  "label_first = [CHR 0xD8, CHR 0xAA, CHR 0xD8, CHR 0xB5, CHR 0xD9, CHR 0x88, CHR 0xDB, CHR 0x8C,
     CHR 0xD8, CHR 0xB1, CHR 0x20, CHR 0xD8, CHR 0xA7, CHR 0xD9, CHR 0x88, CHR 0xD9, CHR 0x84,
     CHR 0x3A, CHR 0x20]"

definition label_second :: string where
  "label_second = [CHR 0x2E, CHR 0x20, CHR 0xD8, CHR 0xAA, CHR 0xD8, CHR 0xB5, CHR 0xD9, CHR 0x88,
     CHR 0xDB, CHR 0x8C, CHR 0xD8, CHR 0xB1, CHR 0x20, CHR 0xD8, CHR 0xAF, CHR 0xD9, CHR 0x88,
     CHR 0xD9, CHR 0x85, CHR 0x3A, CHR 0x20]"

text \<open>
  \<open>describe_images\<close> returns its response and the paths it passed to \<open>Image.open\<close>, in
  order. \<open>captioner\<close> stands for the pretrained model: processor, \<open>generate\<close> and \<open>decode\<close>.
\<close>

definition describe_images ::
  "env \<Rightarrow> (nat \<Rightarrow> py_error + string) \<Rightarrow> string option \<Rightarrow> string option
     \<Rightarrow> describe_response \<times> string list" where
  "describe_images env captioner image1_path image2_path =
     (case image1_path of None \<Rightarrow> (Unhandled TypeError, []) | Some p1 \<Rightarrow>
      case image2_path of None \<Rightarrow> (Unhandled TypeError, []) | Some p2 \<Rightarrow>
      let full_image1_path = path_join STATIC_DATA_DIR p1;
          full_image2_path = path_join STATIC_DATA_DIR p2
      in case image_open env full_image1_path of
           Inl e \<Rightarrow> (Failed 500 (ExceptionText e), [full_image1_path])
         | Inr raw_image1 \<Rightarrow>
           case image_open env full_image2_path of
             Inl e \<Rightarrow> (Failed 500 (ExceptionText e), [full_image1_path, full_image2_path])
           | Inr raw_image2 \<Rightarrow>
             (case captioner raw_image1 of
                Inl e \<Rightarrow> (Failed 500 (ExceptionText e), [full_image1_path, full_image2_path])
              | Inr description1 \<Rightarrow>
                case captioner raw_image2 of
                  Inl e \<Rightarrow> (Failed 500 (ExceptionText e), [full_image1_path, full_image2_path])
                | Inr description2 \<Rightarrow>
                  (Described description1 description2
                     (label_first @ description1 @ label_second @ description2),
                   [full_image1_path, full_image2_path])))"

section \<open>Directory scanner (drag_generator.py)\<close>

text \<open>
  \<open>has_image_extension\<close> is the test
  \<open>any(file_name.lower().endswith(ext) for ext in IMAGE_EXTENSIONS)\<close>.
\<close>

definition IMAGE_EXTENSIONS :: "string list" where
  "IMAGE_EXTENSIONS = [''.png'', ''.jpg'', ''.jpeg'', ''.gif'', ''.bmp'', ''.tiff'', ''.webp'']"

definition has_image_extension :: "string \<Rightarrow> bool" where
  "has_image_extension file_name = list_ex (\<lambda>ext. endswith (lower file_name) ext) IMAGE_EXTENSIONS"

text \<open>\<open>ImageThumbnailWidget._get_image_paths\<close> (lines 489-495).\<close>

definition get_image_paths :: "env \<Rightarrow> string \<Rightarrow> py_error + string list" where
  "get_image_paths env folder_path =
     (case os_listdir env folder_path of
        Inl e \<Rightarrow> Inl e
      | Inr names \<Rightarrow>
          Inr (sort (map (path_join folder_path) (filter has_image_extension names))))"

text \<open>
  \<open>ImageSelectionWindow.scan_directory\<close> (lines 757-769). The result lists the thumbnail
  widgets added to the folder list, each as its folder path and its image paths.
\<close>

fun scan_entries :: "env \<Rightarrow> string \<Rightarrow> string list \<Rightarrow> py_error + (string \<times> string list) list" where
  "scan_entries env root_dir [] = Inr []"
| "scan_entries env root_dir (entry # entries) =
     (let full_path = path_join root_dir entry in
      if isdir env full_path then
        (case os_listdir env full_path of
           Inl e \<Rightarrow> Inl e
         | Inr names \<Rightarrow>
             let image_count = length (filter has_image_extension names) in
             if 1 < image_count then
               (case get_image_paths env full_path of
                  Inl e \<Rightarrow> Inl e
                | Inr image_paths \<Rightarrow>
                    (case scan_entries env root_dir entries of
                       Inl e \<Rightarrow> Inl e
                     | Inr widgets \<Rightarrow> Inr ((full_path, image_paths) # widgets)))
             else scan_entries env root_dir entries)
      else scan_entries env root_dir entries)"

definition scan_directory :: "env \<Rightarrow> string \<Rightarrow> py_error + (string \<times> string list) list" where
  "scan_directory env root_dir =
     (case os_listdir env root_dir of
        Inl e \<Rightarrow> Inl e
      | Inr entries \<Rightarrow> scan_entries env root_dir entries)"

section \<open>Persistence (drag_generator.py)\<close>

text \<open>
  \<open>ImageSelectionWindow.save_coordinates_to_json\<close> (lines 1037-1083). The message box
  it shows is the second component of the result: one warning per validation that fails,
  the saved path, or the exception of a failed write.
\<close>

datatype save_dialog =
  WarnSelectBothFrames
  | WarnMaskNeedsFourPoints
  | WarnSelectSourceAndTarget
  | WarnCountsDiffer
  | InformationSaved string
  | CriticalSaveFailed py_error

definition point_json :: "qpoint \<Rightarrow> json" where
  "point_json p = JObj [(''x'', JNum (fst p)), (''y'', JNum (snd p))]"

definition annotation_record :: "window \<Rightarrow> json" where
  "annotation_record w =
     JObj [(''frame1_image'', JStr (basename (the (image_path_frame1 w)))),
           (''frame2_image'', JStr (basename (the (image_path_frame2 w)))),
           (''mask_area'', JArr (map point_json (mask_points_on_combined w))),
           (''source_points'', JArr (map point_json (source_points_on_frame1 w))),
           (''target_points'', JArr (map point_json (target_points_on_frame2 w)))]"

definition output_path :: "string \<Rightarrow> string \<Rightarrow> string" where
  "output_path frame1 frame2 =
     (let output_folder = dirname frame1;
          base1 = fst (splitext (basename frame1));
          base2 = fst (splitext (basename frame2));
          output_file_name = ''drag_data_'' @ base1 @ ''_to_'' @ base2 @ ''.json''
      in path_join output_folder output_file_name)"

definition save_coordinates_to_json :: "env \<Rightarrow> window \<Rightarrow> env \<times> save_dialog" where
  "save_coordinates_to_json env w =
     (if \<not> truthy_path (image_path_frame1 w) \<or> \<not> truthy_path (image_path_frame2 w)
      then (env, WarnSelectBothFrames)
      else if length (mask_points_on_combined w) \<noteq> 4 then (env, WarnMaskNeedsFourPoints)
      else if source_points_on_frame1 w = [] \<or> target_points_on_frame2 w = []
      then (env, WarnSelectSourceAndTarget)
      else if length (source_points_on_frame1 w) \<noteq> length (target_points_on_frame2 w)
      then (env, WarnCountsDiffer)
      else
        let p = output_path (the (image_path_frame1 w)) (the (image_path_frame2 w))
        in case json_dump_to env p ''utf-8'' (annotation_record w) 4 False of
             Inl e \<Rightarrow> (env, CriticalSaveFailed e)
           | Inr env' \<Rightarrow> (env', InformationSaved p))"

section \<open>Example states\<close>

text \<open>Concrete widgets, windows and directory trees for the closed theorems below.\<close>

definition click :: "qpoint \<Rightarrow> mouse_button \<Rightarrow> mouse_event" where
  "click p b = \<lparr>ev_pos = p, ev_button = b, ev_left_held = (b = LeftButton)\<rparr>"

definition example_single_label :: single_label where
  "example_single_label =
     \<lparr>original_pixmap = (100, 100), current_points = [(0, 5), (40, 40)],
      sl_dragging_point_index = - 1, point_mode_enabled = True,
      sl_drawn_pixmap_rect = rect_of (10, 10) (100, 100), sl_cursor = ArrowCursor,
      points_changed = []\<rparr>"

definition example_combined_label :: combined_label where
  "example_combined_label =
     \<lparr>pixmap1 = (100, 100), pixmap2 = (100, 100), combined_pixmap = (100, 100),
      mask_points = [(10, 10), (90, 10), (90, 90), (10, 90)],
      cl_dragging_point_index = - 1, mask_mode_enabled = True,
      cl_drawn_pixmap_rect = rect_of (0, 0) (100, 100), cl_cursor = CrossCursor,
      mask_points_changed = [[(10, 10), (90, 10), (90, 90), (10, 90)]]\<rparr>"

definition example_window :: window where
  "example_window =
     \<lparr>image_path_frame1 = Some ''/pics/clip/a.png'', image_path_frame2 = Some ''/pics/clip/c.v2.jpeg'',
      mask_points_on_combined = [(0, 0), (9, 0), (9, 9), (0, 9)],
      source_points_on_frame1 = [(1, 1)], target_points_on_frame2 = [(3, 3)],
      save_button_enabled = True\<rparr>"

definition annotated_clip :: node where
  "annotated_clip =
     Dir [(''a.json'', File (JsonDoc (JObj [(''frame1_image'', JStr ''f1.png''),
                                             (''frame2_image'', JStr ''f2.png''),
                                             (''caption'', JStr ''a cat'')]))),
          (''b.json'', File (JsonDoc (JObj [(''frame1_image'', JStr ''f1.png''),
                                             (''frame2_image'', JStr ''f2.png'')]))),
          (''f1.png'', File (ImageFile 1)),
          (''f2.png'', File (ImageFile 2))]"

definition viewer_env :: env where
  "viewer_env =
     \<lparr>cwd = ''/srv/app'',
      fs_root = Dir [(''srv'', Dir [(''app'', Dir [
        (''data'', Dir [(''clip'', annotated_clip)]),
        (''data_old'', Dir [(''x.json'', File (JsonDoc (JObj [(''kept'', JNum 1)])))]),
        (''static'', Dir [(''data'', Dir [(''clip'', annotated_clip)])]),
        (''secret.png'', File (ImageFile 7))])])],
      write_log = []\<rparr>"

definition viewer_env_undecodable :: env where
  "viewer_env_undecodable =
     \<lparr>cwd = ''/srv/app'',
      fs_root = Dir [(''srv'', Dir [(''app'', Dir [
        (''data'', Dir [(''clip'', annotated_clip),
                        (''notes.json'', File InvalidUtf8)])])])],
      write_log = []\<rparr>"

definition viewer_env_null :: env where
  "viewer_env_null =
     \<lparr>cwd = ''/srv/app'',
      fs_root = Dir [(''srv'', Dir [(''app'', Dir [
        (''data'', Dir [(''clip'', annotated_clip),
                        (''notes.json'', File (JsonDoc JNull))])])])],
      write_log = []\<rparr>"

definition viewer_env_malformed :: env where
  "viewer_env_malformed =
     \<lparr>cwd = ''/srv/app'',
      fs_root = Dir [(''srv'', Dir [(''app'', Dir [
        (''data'', Dir [(''clip'', annotated_clip),
                        (''notes.json'', File InvalidJson)])])])],
      write_log = []\<rparr>"

definition annotator_env :: env where
  "annotator_env =
     \<lparr>cwd = ''/home/user'',
      fs_root = Dir [(''pics'', Dir [
        (''clip'', Dir [(''a.png'', File (ImageFile 1)), (''b.JPG'', Dir []),
                        (''c.v2.jpeg'', File (ImageFile 2)), (''notes.txt'', File InvalidJson)]),
        (''single'', Dir [(''only.png'', File (ImageFile 3))]),
        (''readme.png'', File (ImageFile 4))])],
      write_log = []\<rparr>"

section \<open>Theorems: save readiness\<close>

text \<open>
  C3. The save-readiness predicate is true if and only if both frame paths are chosen, the
  mask has exactly four points, the source list is non-empty, and the source and target
  lists have equal length. A chosen frame path is never the empty string (it is the join
  of a folder and a listed file name), which is the hypothesis below.
\<close>

theorem check_save_button_status_iff:
  assumes "image_path_frame1 w \<noteq> Some []" and "image_path_frame2 w \<noteq> Some []"
  shows "save_button_enabled (check_save_button_status w) =
           (image_path_frame1 w \<noteq> None \<and> image_path_frame2 w \<noteq> None \<and>
            length (mask_points_on_combined w) = 4 \<and>
            source_points_on_frame1 w \<noteq> [] \<and>
            length (source_points_on_frame1 w) = length (target_points_on_frame2 w))"
proof -
  have f1: "truthy_path (image_path_frame1 w) = (image_path_frame1 w \<noteq> None)"
    using assms(1) by (cases "image_path_frame1 w") auto
  have f2: "truthy_path (image_path_frame2 w) = (image_path_frame2 w \<noteq> None)"
    using assms(2) by (cases "image_path_frame2 w") auto
  show ?thesis
    unfolding check_save_button_status_def f1 f2 by auto
qed

theorem check_save_button_status_ready_witness:
  "save_button_enabled (check_save_button_status
      \<lparr>image_path_frame1 = Some ''d/a.png'', image_path_frame2 = Some ''d/b.png'',
       mask_points_on_combined = [(0,0), (9,0), (9,9), (0,9)],
       source_points_on_frame1 = [(1,1)], target_points_on_frame2 = [(3,3)],
       save_button_enabled = False\<rparr>)"
  using check_save_button_status_iff
    [of "\<lparr>image_path_frame1 = Some ''d/a.png'', image_path_frame2 = Some ''d/b.png'',
       mask_points_on_combined = [(0,0), (9,0), (9,9), (0,9)],
       source_points_on_frame1 = [(1,1)], target_points_on_frame2 = [(3,3)],
       save_button_enabled = False\<rparr>"]
  by simp

text \<open>
  The two negative examples of the specification: a mask of three points, and two source
  points against one target point.
\<close>

lemma check_save_button_status_three_point_mask:
  "\<not> save_button_enabled (check_save_button_status
      \<lparr>image_path_frame1 = Some ''d/a.png'', image_path_frame2 = Some ''d/b.png'',
       mask_points_on_combined = [(0,0), (9,0), (9,9)],
       source_points_on_frame1 = [(1,1)], target_points_on_frame2 = [(3,3)],
       save_button_enabled = True\<rparr>)"
  by (simp add: check_save_button_status_def)

lemma check_save_button_status_mismatched_lengths:
  "\<not> save_button_enabled (check_save_button_status
      \<lparr>image_path_frame1 = Some ''d/a.png'', image_path_frame2 = Some ''d/b.png'',
       mask_points_on_combined = [(0,0), (9,0), (9,9), (0,9)],
       source_points_on_frame1 = [(1,1), (2,2)], target_points_on_frame2 = [(3,3)],
       save_button_enabled = True\<rparr>)"
  by (simp add: check_save_button_status_def)

section \<open>Lemmas: rounding to double precision\<close>

lemma pow2_pos [simp]: "(0::rat) < 2 powi e"
  by (simp add: power_int_def)

lemma pow2_mono: "a \<le> b \<Longrightarrow> (2::rat) powi a \<le> 2 powi b"
  by (rule power_int_increasing) simp_all

lemma pow2_strict_mono: "a < b \<Longrightarrow> (2::rat) powi a < 2 powi b"
  by (rule power_int_strict_increasing) simp_all

lemma ilog2_bounds:
  assumes "0 < r"
  shows "2 powi (ilog2 r) \<le> r \<and> r < 2 powi (ilog2 r + 1)"
proof -
  obtain a b where q: "quotient_of r = (a, b)" by (cases "quotient_of r")
  have b: "0 < b" using quotient_of_denom_pos[OF q] .
  have r: "r = of_int a / of_int b" using quotient_of_div[OF q] .
  have a: "0 < a" using assms b r by (simp add: zero_less_divide_iff)
  define la where "la = bitlen a"
  define lb where "lb = bitlen b"
  have la: "2 ^ nat (la - 1) \<le> a" "a < 2 ^ nat la" using bitlen_bounds[OF a] by (auto simp: la_def)
  have lb: "2 ^ nat (lb - 1) \<le> b" "b < 2 ^ nat lb" using bitlen_bounds[OF b] by (auto simp: lb_def)
  have la1: "1 \<le> la" using a by (auto simp: la_def bitlen_alt_def)
  have lb1: "1 \<le> lb" using b by (auto simp: lb_def bitlen_alt_def)
  have ra: "(2::rat) powi (la - 1) \<le> of_int a" "of_int a < (2::rat) powi la"
  proof -
    have "(2::rat) powi (la - 1) = of_int (2 ^ nat (la - 1))"
      using la1 by (simp add: power_int_nonneg_exp)
    then show "(2::rat) powi (la - 1) \<le> of_int a" using la(1) by (simp only: of_int_le_iff)
    have "(2::rat) powi la = of_int (2 ^ nat la)"
      using la1 by (simp add: power_int_nonneg_exp)
    then show "of_int a < (2::rat) powi la" using la(2) by (simp only: of_int_less_iff)
  qed
  have rb: "(2::rat) powi (lb - 1) \<le> of_int b" "of_int b < (2::rat) powi lb"
  proof -
    have "(2::rat) powi (lb - 1) = of_int (2 ^ nat (lb - 1))"
      using lb1 by (simp add: power_int_nonneg_exp)
    then show "(2::rat) powi (lb - 1) \<le> of_int b" using lb(1) by (simp only: of_int_le_iff)
    have "(2::rat) powi lb = of_int (2 ^ nat lb)"
      using lb1 by (simp add: power_int_nonneg_exp)
    then show "of_int b < (2::rat) powi lb" using lb(2) by (simp only: of_int_less_iff)
  qed
  have bpos: "(0::rat) < of_int b" using b by simp
  have s1: "(2::rat) powi (la - lb + 1) = 2 powi la / 2 powi (lb - 1)"
    using power_int_diff[of "2::rat" la "lb - 1"] by (simp add: algebra_simps)
  have s2: "(2::rat) powi (la - lb - 1) = 2 powi (la - 1) / 2 powi lb"
    using power_int_diff[of "2::rat" "la - 1" lb] by (simp add: algebra_simps)
  have up: "r < 2 powi (la - lb + 1)"
  proof -
    have "r < 2 powi la / of_int b" unfolding r using ra(2) bpos by (simp add: divide_strict_right_mono)
    also have "\<dots> \<le> 2 powi la / 2 powi (lb - 1)"
      using rb(1) bpos by (intro divide_left_mono) (simp_all add: zero_less_mult_iff)
    finally show ?thesis unfolding s1 .
  qed
  have lo: "2 powi (la - lb - 1) < r"
  proof -
    have "(2::rat) powi (la - 1) / 2 powi lb < 2 powi (la - 1) / of_int b"
      using rb(2) bpos by (intro divide_strict_left_mono) (simp_all add: zero_less_mult_iff)
    also have "\<dots> \<le> r" unfolding r using ra(1) bpos by (simp add: divide_right_mono)
    finally show ?thesis unfolding s2 .
  qed
  show ?thesis
    using up lo q unfolding ilog2_def Let_def la_def[symmetric] lb_def[symmetric]
    by (auto simp: la_def lb_def)
qed


lemma rhe_int: "round_half_even (of_int n) = n"
  by (simp add: round_half_even_def)

lemma rhe_bounds:
  "of_int (round_half_even y) - y \<le> 1/2 \<and> y - of_int (round_half_even y) \<le> 1/2"
proof -
  define f where "f = \<lfloor>y\<rfloor>"
  have "of_int f \<le> y" "y < of_int f + 1" unfolding f_def by linarith+
  then show ?thesis
    unfolding round_half_even_def Let_def f_def[symmetric] by auto
qed

lemma rhe_floor: "\<lfloor>y\<rfloor> \<le> round_half_even y \<and> round_half_even y \<le> \<lfloor>y\<rfloor> + 1"
  unfolding round_half_even_def Let_def by auto

lemma rhe_mono:
  assumes "y \<le> z"
  shows "round_half_even y \<le> round_half_even z"
proof (cases "\<lfloor>y\<rfloor> = \<lfloor>z\<rfloor>")
  case True
  have "y - of_int \<lfloor>y\<rfloor> \<le> z - of_int \<lfloor>z\<rfloor>" using assms True by simp
  then show ?thesis
    unfolding round_half_even_def Let_def using True by auto
next
  case False
  have "\<lfloor>y\<rfloor> \<le> \<lfloor>z\<rfloor>" using assms by (rule floor_mono)
  then have "\<lfloor>y\<rfloor> + 1 \<le> \<lfloor>z\<rfloor>" using False by simp
  then show ?thesis using rhe_floor[of y] rhe_floor[of z] by linarith
qed

lemma fl_pos_unfold:
  assumes "0 < r"
  shows "fl r = of_int (round_half_even (r / 2 powi (ilog2 r - 52))) * 2 powi (ilog2 r - 52)"
  using assms by (simp add: fl_def Let_def)

lemma scaled_range:
  assumes "0 < r"
  shows "2 ^ 52 \<le> r / 2 powi (ilog2 r - 52) \<and> r / 2 powi (ilog2 r - 52) < 2 ^ 53"
proof -
  define e where "e = ilog2 r"
  have b: "2 powi e \<le> r" "r < 2 powi (e + 1)" using ilog2_bounds[OF assms] by (auto simp: e_def)
  have u: "(0::rat) < 2 powi (e - 52)" by simp
  have e1: "(2::rat) powi e = 2 ^ 52 * 2 powi (e - 52)"
    using power_int_add[of "2::rat" 52 "e - 52"] by simp
  have e2: "(2::rat) powi (e + 1) = 2 ^ 53 * 2 powi (e - 52)"
    using power_int_add[of "2::rat" 53 "e - 52"] by (simp add: add.commute)
  have "2 ^ 52 \<le> r / 2 powi (e - 52)"
    using b(1) u unfolding e1 by (simp add: pos_le_divide_eq)
  moreover have "r / 2 powi (e - 52) < 2 ^ 53"
    using b(2) u unfolding e2 by (simp add: pos_divide_less_eq)
  ultimately show ?thesis unfolding e_def by simp
qed

lemma fl_range:
  assumes "0 < r"
  shows "2 powi (ilog2 r) \<le> fl r \<and> fl r \<le> 2 powi (ilog2 r + 1)"
proof -
  define e where "e = ilog2 r"
  define y where "y = r / 2 powi (e - 52)"
  have y: "2 ^ 52 \<le> y" "y < 2 ^ 53" using scaled_range[OF assms] by (auto simp: y_def e_def)
  have "round_half_even (of_int (2 ^ 52)) \<le> round_half_even y"
    by (rule rhe_mono) (use y in simp)
  then have lo: "(2::int) ^ 52 \<le> round_half_even y" by (simp only: rhe_int)
  have "round_half_even y \<le> round_half_even (of_int (2 ^ 53))"
    by (rule rhe_mono) (use y in simp)
  then have hi: "round_half_even y \<le> (2::int) ^ 53" by (simp only: rhe_int)
  have e1: "(2::rat) powi e = 2 ^ 52 * 2 powi (e - 52)"
    using power_int_add[of "2::rat" 52 "e - 52"] by simp
  have e2: "(2::rat) powi (e + 1) = 2 ^ 53 * 2 powi (e - 52)"
    using power_int_add[of "2::rat" 53 "e - 52"] by (simp add: add.commute)
  have flr: "fl r = of_int (round_half_even y) * 2 powi (e - 52)"
    using fl_pos_unfold[OF assms] by (simp add: y_def e_def)
  have lo': "(2::rat) ^ 52 \<le> of_int (round_half_even y)"
    using lo by (metis of_int_le_iff of_int_numeral of_int_power)
  have hi': "of_int (round_half_even y) \<le> (2::rat) ^ 53"
    using hi by (metis of_int_le_iff of_int_numeral of_int_power)
  show ?thesis
    unfolding e_def[symmetric] flr e1 e2 using lo' hi'
    by (simp add: mult_right_mono)
qed

lemma fl_pos: "0 < r \<Longrightarrow> 0 < fl r"
  using fl_range[of r] pow2_pos[of "ilog2 r"] by linarith

lemma fl_mono_pos:
  assumes "0 < a" "a \<le> b"
  shows "fl a \<le> fl b"
proof -
  have bpos: "0 < b" using assms by simp
  consider "ilog2 a = ilog2 b" | "ilog2 a < ilog2 b" | "ilog2 b < ilog2 a" by linarith
  then show ?thesis
  proof cases
    case 1
    have "a / 2 powi (ilog2 b - 52) \<le> b / 2 powi (ilog2 b - 52)"
      using assms(2) by (simp add: divide_right_mono)
    then have "round_half_even (a / 2 powi (ilog2 b - 52)) \<le> round_half_even (b / 2 powi (ilog2 b - 52))"
      by (rule rhe_mono)
    then show ?thesis
      unfolding fl_pos_unfold[OF assms(1)] fl_pos_unfold[OF bpos] 1
      by (simp add: mult_right_mono)
  next
    case 2
    then have "ilog2 a + 1 \<le> ilog2 b" by simp
    then have "(2::rat) powi (ilog2 a + 1) \<le> 2 powi (ilog2 b)" by (rule pow2_mono)
    then show ?thesis using fl_range[OF assms(1)] fl_range[OF bpos] by linarith
  next
    case 3
    then have "ilog2 b + 1 \<le> ilog2 a" by simp
    then have "(2::rat) powi (ilog2 b + 1) \<le> 2 powi (ilog2 a)" by (rule pow2_mono)
    then have False using ilog2_bounds[OF assms(1)] ilog2_bounds[OF bpos] assms(2) by linarith
    then show ?thesis ..
  qed
qed

lemma fl_zero [simp]: "fl 0 = 0"
  by (simp add: fl_def)

lemma fl_mono:
  assumes "0 \<le> a" "a \<le> b"
  shows "fl a \<le> fl b"
proof (cases "a = 0")
  case True
  show ?thesis
  proof (cases "b = 0")
    case True
    with \<open>a = 0\<close> show ?thesis by simp
  next
    case False
    then have "0 < b" using assms True by simp
    then show ?thesis using fl_pos[of b] True by simp
  qed
next
  case False
  then have "0 < a" using assms by simp
  then show ?thesis using assms(2) by (rule fl_mono_pos)
qed

lemma fl_of_int:
  assumes "0 \<le> n" "n < 2 ^ 53"
  shows "fl (of_int n) = of_int n"
proof (cases "n = 0")
  case True
  then show ?thesis by simp
next
  case False
  then have npos: "(0::rat) < of_int n" using assms by simp
  define e where "e = ilog2 (of_int n)"
  have b: "2 powi e \<le> (of_int n :: rat)" using ilog2_bounds[OF npos] by (simp add: e_def)
  have "(of_int n :: rat) < 2 ^ 53" using assms(2) by (metis of_int_less_iff of_int_numeral of_int_power)
  then have "(2::rat) powi e < 2 powi 53" using b by simp
  then have e: "e \<le> 52" using pow2_mono[of 53 e] by (cases "e \<le> 52") auto
  define k where "k = nat (52 - e)"
  have u: "(2::rat) powi (e - 52) = 1 / 2 ^ k"
    using e power_int_minus_divide[of "2::rat" "52 - e"] by (simp add: k_def power_int_nonneg_exp)
  have "of_int n / (2::rat) powi (e - 52) = of_int (n * 2 ^ k)"
    unfolding u by simp
  then have "round_half_even (of_int n / 2 powi (e - 52)) = n * 2 ^ k"
    by (simp only: rhe_int)
  then show ?thesis
    unfolding fl_pos_unfold[OF npos] e_def[symmetric] by (simp add: u)
qed

lemma fl_err:
  assumes "0 < r"
  shows "\<bar>fl r - r\<bar> \<le> r / 2 ^ 53"
proof -
  define e where "e = ilog2 r"
  define u where "u = (2::rat) powi (e - 52)"
  define y where "y = r / u"
  have upos: "0 < u" by (simp add: u_def)
  have ry: "r = y * u" using upos by (simp add: y_def)
  have flr: "fl r = of_int (round_half_even y) * u"
    using fl_pos_unfold[OF assms] by (simp add: y_def e_def u_def)
  have "\<bar>of_int (round_half_even y) - y\<bar> \<le> 1/2" using rhe_bounds[of y] by linarith
  then have "\<bar>of_int (round_half_even y) - y\<bar> * u \<le> 1/2 * u"
    using upos by (simp add: mult_right_mono)
  moreover have "\<bar>fl r - r\<bar> = \<bar>of_int (round_half_even y) - y\<bar> * u"
    using upos unfolding flr by (subst ry) (simp add: abs_mult left_diff_distrib[symmetric])
  ultimately have a: "\<bar>fl r - r\<bar> \<le> u / 2" by simp
  have "2 ^ 52 \<le> y" using scaled_range[OF assms] by (simp add: y_def u_def e_def)
  then have "2 ^ 52 * u \<le> r" using upos by (simp add: y_def pos_le_divide_eq)
  then have "u / 2 \<le> r / 2 ^ 53" by simp
  with a show ?thesis by linarith
qed

lemma fl_nonneg: "0 \<le> r \<Longrightarrow> 0 \<le> fl r"
  using fl_mono[of 0 r] by simp

lemma fl_err0:
  assumes "0 \<le> r"
  shows "r * (1 - 1 / 2 ^ 53) \<le> fl r \<and> fl r \<le> r * (1 + 1 / 2 ^ 53)"
proof (cases "r = 0")
  case True
  then show ?thesis by simp
next
  case False
  then have "0 < r" using assms by simp
  from fl_err[OF this] have a: "fl r - r \<le> r / 2 ^ 53" "r - fl r \<le> r / 2 ^ 53" by linarith+
  have b: "r * (1 - 1 / 2 ^ 53) = r - r / 2 ^ 53" "r * (1 + 1 / 2 ^ 53) = r + r / 2 ^ 53"
    by (simp_all add: algebra_simps)
  show ?thesis unfolding b using a by linarith
qed

lemma fl_ge_int:
  assumes "0 \<le> n" "n < 2 ^ 53" "of_int n \<le> r"
  shows "of_int n \<le> fl r"
  using fl_mono[of "of_int n" r] fl_of_int[OF assms(1,2)] assms by simp

lemma py_int_nonneg: "0 \<le> r \<Longrightarrow> py_int r = \<lfloor>r\<rfloor>"
  by (simp add: py_int_def)

lemma eps4: "(1 + 1 / 2 ^ 53 :: rat) ^ 4 \<le> 1 + 5 / 2 ^ 53"
  by (simp add: power4_eq_xxxx)

lemma axis_upper:
  fixes W dw x :: int
  assumes "1 \<le> dw" "dw \<le> W" "W \<le> 2 ^ 24" "0 \<le> x" "x < dw"
  shows "py_int (fl (of_int (max 0 (min (py_int (fl (of_int x * fl (of_int W / of_int dw)))) (W - 1)))
                     * fl (of_int dw / of_int W))) \<le> x"
proof -
  define k :: rat where "k = 1 + 1 / 2 ^ 53"
  define X :: rat where "X = of_int x"
  define q :: rat where "q = of_int W / of_int dw"
  define q' :: rat where "q' = of_int dw / of_int W"
  define s where "s = fl q"
  define s' where "s' = fl q'"
  define t where "t = fl (X * s)"
  define ox where "ox = max 0 (min (py_int t) (W - 1))"
  define t' where "t' = fl (of_int ox * s')"
  have k1: "1 \<le> k" "0 \<le> k" by (simp_all add: k_def)
  have X0: "0 \<le> X" "X \<le> 2 ^ 24" using assms by (simp_all add: X_def)
  have q0: "0 < q" "0 < q'" using assms by (simp_all add: q_def q'_def)
  have qq: "q * q' = 1" using assms by (simp add: q_def q'_def)
  have s0: "0 \<le> s" "s \<le> q * k" using fl_err0[of q] fl_nonneg[of q] q0 by (simp_all add: s_def k_def)
  have s'0: "0 \<le> s'" "s' \<le> q' * k" using fl_err0[of q'] fl_nonneg[of q'] q0 by (simp_all add: s'_def k_def)
  have Xs0: "0 \<le> X * s" using X0 s0 by simp
  have t0: "0 \<le> t" "t \<le> X * s * k" using fl_err0[OF Xs0] fl_nonneg[OF Xs0] by (simp_all add: t_def k_def)
  have m0: "0 \<le> py_int t" "of_int (py_int t) \<le> t" using t0 by (simp_all add: py_int_nonneg)
  have W1: "0 \<le> W - 1" using assms by simp
  have ox0: "0 \<le> ox" "ox \<le> py_int t" using m0 W1 by (simp_all add: ox_def)
  have oxt: "(of_int ox :: rat) \<le> t" using ox0(2) m0(2) by (meson of_int_le_iff order_trans)
  have oxr0: "(0::rat) \<le> of_int ox" using ox0 by simp
  have os0: "0 \<le> of_int ox * s'" using oxr0 s'0 by simp
  have t'0: "t' \<le> of_int ox * s' * k" using fl_err0[OF os0] by (simp add: t'_def k_def)
  have "t \<le> X * (q * k) * k"
  proof -
    have "X * s \<le> X * (q * k)" using s0 X0 by (simp add: mult_left_mono)
    then have "X * s * k \<le> X * (q * k) * k" using k1 by (simp add: mult_right_mono)
    with t0 show ?thesis by linarith
  qed
  then have c1: "of_int ox \<le> X * (q * k) * k" using oxt by linarith
  have c0: "0 \<le> X * (q * k) * k" using X0 q0 k1 by simp
  have "of_int ox * s' \<le> (X * (q * k) * k) * (q' * k)"
    using c1 s'0 oxr0 c0 by (intro mult_mono) simp_all
  then have "of_int ox * s' * k \<le> (X * (q * k) * k) * (q' * k) * k"
    using k1 by (simp add: mult_right_mono)
  also have "(X * (q * k) * k) * (q' * k) * k = X * (q * q') * k ^ 4"
    by (simp add: power4_eq_xxxx algebra_simps)
  also have "\<dots> = X * k ^ 4" by (simp add: qq)
  finally have "t' \<le> X * k ^ 4" using t'0 by linarith
  moreover have "X * k ^ 4 \<le> X * (1 + 5 / 2 ^ 53)"
    using eps4 X0 unfolding k_def by (intro mult_left_mono) simp_all
  moreover have "X * (1 + 5 / 2 ^ 53) < X + 1" using X0 by (simp add: algebra_simps)
  ultimately have "t' < of_int x + 1" unfolding X_def by linarith
  moreover have "0 \<le> t'" unfolding t'_def by (rule fl_nonneg) (rule os0)
  ultimately have "py_int t' \<le> x" by (simp add: py_int_nonneg floor_le_iff)
  then show ?thesis
    unfolding t'_def ox_def t_def s_def s'_def q_def q'_def X_def .
qed


lemma fl_one: "fl 1 = 1"
  using fl_of_int[of 1] by simp

lemma axis_lower:
  fixes W dw x :: int
  assumes "1 \<le> dw" "dw \<le> W" "W \<le> 2 ^ 24" "0 \<le> x" "x < dw"
  shows "x - 1 \<le> py_int (fl (of_int (max 0 (min (py_int (fl (of_int x * fl (of_int W / of_int dw)))) (W - 1)))
                     * fl (of_int dw / of_int W)))"
proof -
  define k :: rat where "k = 1 - 1 / 2 ^ 53"
  define X :: rat where "X = of_int x"
  define q :: rat where "q = of_int W / of_int dw"
  define q' :: rat where "q' = of_int dw / of_int W"
  define s where "s = fl q"
  define s' where "s' = fl q'"
  define t where "t = fl (X * s)"
  define ox where "ox = max 0 (min (py_int t) (W - 1))"
  define t' where "t' = fl (of_int ox * s')"
  have goal_eq: "py_int (fl (of_int (max 0 (min (py_int (fl (of_int x * fl (of_int W / of_int dw)))) (W - 1)))
                     * fl (of_int dw / of_int W))) = py_int t'"
    unfolding t'_def ox_def t_def s_def s'_def q_def q'_def X_def ..
  have k1: "k \<le> 1" "0 < k" by (simp_all add: k_def)
  have X0: "0 \<le> X" "X \<le> 2 ^ 24" using assms by (simp_all add: X_def)
  have q0: "0 < q" "0 < q'" using assms by (simp_all add: q_def q'_def)
  have s0: "0 \<le> s" "q * k \<le> s" using fl_err0[of q] fl_nonneg[of q] q0 by (simp_all add: s_def k_def)
  have s'0: "0 \<le> s'" "q' * k \<le> s'" using fl_err0[of q'] fl_nonneg[of q'] q0 by (simp_all add: s'_def k_def)
  have Xs0: "0 \<le> X * s" using X0 s0 by simp
  have t0: "0 \<le> t" using fl_nonneg[OF Xs0] by (simp add: t_def)
  have m0: "0 \<le> py_int t" "py_int t = \<lfloor>t\<rfloor>" using t0 by (simp_all add: py_int_nonneg)
  have W1: "0 \<le> W - 1" using assms by simp
  have ox0: "0 \<le> ox" using m0 W1 by (simp add: ox_def)
  have oxr0: "(0::rat) \<le> of_int ox" using ox0 by simp
  have os0: "0 \<le> of_int ox * s'" using oxr0 s'0 by simp
  have t'0: "0 \<le> t'" unfolding t'_def by (rule fl_nonneg) (rule os0)
  have res0: "0 \<le> py_int t'" using t'0 by (simp add: py_int_nonneg)
  show ?thesis
  proof (cases "x = 0")
    case True
    then show ?thesis unfolding goal_eq using res0 by simp
  next
    case xpos: False
    then have x1: "1 \<le> x" using assms by simp
    have xm: "0 \<le> x - 1" "x - 1 < 2 ^ 53" using x1 assms by simp_all
    have key: "of_int (x - 1) \<le> of_int ox * s'"
    proof (cases "dw = W")
      case True
      have "q = 1" "q' = 1" using True assms by (simp_all add: q_def q'_def)
      then have ss: "s = 1" "s' = 1" by (simp_all add: s_def s'_def fl_one)
      have "x < 2 ^ 53" using assms by simp
      then have "t = of_int x" unfolding t_def ss X_def using fl_of_int[of x] assms by simp
      then have "py_int t = x" using assms by (simp add: py_int_def)
      then have "ox = x" unfolding ox_def using assms True by simp
      then show ?thesis using ss by simp
    next
      case False
      then have dwW: "dw \<le> W - 1" using assms by simp
      show ?thesis
      proof (cases "W - 1 \<le> py_int t")
        case True
        then have oxW: "ox = W - 1" using W1 by (simp add: ox_def)
        have Wpos: "(0::rat) < of_int W" using assms by simp
        have "of_int (W - 1) * q' = (of_int dw :: rat) - of_int dw / of_int W"
          using Wpos by (simp add: q'_def field_simps)
        moreover have "(of_int dw :: rat) / of_int W \<le> 1" using assms Wpos by (simp add: pos_divide_le_eq)
        moreover have "X \<le> of_int dw - 1" using assms unfolding X_def by (metis of_int_1 of_int_diff of_int_le_iff zle_diff1_eq)
        ultimately have a: "X \<le> of_int (W - 1) * q'" by linarith
        have "X * k \<le> of_int (W - 1) * q' * k" using a k1 by (simp add: mult_right_mono)
        also have "\<dots> \<le> of_int (W - 1) * s'" using s'0(2) W1
          by (simp add: mult_left_mono mult.assoc)
        finally have b: "X * k \<le> of_int ox * s'" unfolding oxW .
        have "X - 1 \<le> X * k" using X0 by (simp add: k_def algebra_simps)
        then show ?thesis using b unfolding X_def by simp
      next
        case False
        then have oxm: "ox = py_int t" using m0 by (simp add: ox_def)
        define n where "n = \<lfloor>X * s\<rfloor>"
        have n0: "0 \<le> n" using Xs0 by (simp add: n_def)
        have sq: "s \<le> q * (1 + 1 / 2 ^ 53)" using fl_err0[of q] q0 by (simp add: s_def)
        have qW: "q \<le> 2 ^ 24"
        proof -
          have "q \<le> of_int W" using assms unfolding q_def by (simp add: pos_divide_le_eq mult_le_cancel_left1)
          also have "\<dots> \<le> 2 ^ 24" using assms by simp
          finally show ?thesis .
        qed
        have "q * (1 + 1 / 2 ^ 53) \<le> 2 ^ 24 * (1 + 1 / 2 ^ 53)"
          using qW by (intro mult_right_mono) simp_all
        then have "s \<le> 2 ^ 24 * (1 + 1 / 2 ^ 53)" using sq by linarith
        then have "X * s \<le> 2 ^ 24 * (2 ^ 24 * (1 + 1 / 2 ^ 53))"
          using X0 s0 by (intro mult_mono) simp_all
        then have "X * s < 2 ^ 53" by simp
        then have n53: "n < 2 ^ 53" unfolding n_def by (simp add: floor_less_iff)
        have "of_int n \<le> X * s" by (simp add: n_def)
        from fl_ge_int[OF n0 n53 this] have "of_int n \<le> t" by (simp add: t_def)
        then have nm: "n \<le> py_int t" unfolding m0(2) by (simp add: le_floor_iff)
        have "X * s < of_int n + 1" unfolding n_def by linarith
        moreover have "X * (q * k) \<le> X * s" using s0 X0 by (simp add: mult_left_mono)
        ultimately have "X * (q * k) - 1 < of_int n" by linarith
        also have "\<dots> \<le> of_int ox" using nm oxm by simp
        finally have c: "X * (q * k) - 1 < of_int ox" .
        have qk0: "0 < q' * k" using q0 k1 by simp
        have "(X * (q * k) - 1) * (q' * k) \<le> of_int ox * (q' * k)"
          using c qk0 by (simp add: mult_right_mono)
        also have "\<dots> \<le> of_int ox * s'" using s'0 oxr0 by (simp add: mult_left_mono)
        finally have d: "(X * (q * k) - 1) * (q' * k) \<le> of_int ox * s'" .
        have qq: "q * q' = 1" using assms by (simp add: q_def q'_def)
        have "(X * (q * k) - 1) * (q' * k) = X * (q * q') * k ^ 2 - q' * k"
          by (simp add: power2_eq_square algebra_simps)
        then have e: "(X * (q * k) - 1) * (q' * k) = X * k ^ 2 - q' * k" by (simp add: qq)
        have q'le: "q' \<le> 1 - 1 / 2 ^ 24"
        proof -
          have Wpos: "(0::rat) < of_int W" using assms by simp
          have "(of_int dw :: rat) \<le> of_int W - 1" using dwW by (metis of_int_1 of_int_diff of_int_le_iff)
          then have "q' \<le> (of_int W - 1) / of_int W" unfolding q'_def using Wpos by (simp add: divide_right_mono)
          also have "\<dots> = 1 - 1 / of_int W" using Wpos by (simp add: field_simps)
          also have "\<dots> \<le> 1 - 1 / 2 ^ 24"
          proof -
            have "(of_int W :: rat) \<le> 2 ^ 24" using assms by simp
            then have "1 / 2 ^ 24 \<le> 1 / (of_int W :: rat)" using Wpos by (intro divide_left_mono) simp_all
            then show ?thesis by simp
          qed
          finally show ?thesis .
        qed
        have "q' * k \<le> q'" using q0 k1 by (simp add: mult_le_cancel_left2)
        then have f: "q' * k \<le> 1 - 1 / 2 ^ 24" using q'le by linarith
        have k2: "1 - 2 / 2 ^ 53 \<le> k ^ 2" by (simp add: k_def power2_eq_square)
        have "X * (1 - 2 / 2 ^ 53) \<le> X * k ^ 2" using k2 X0 by (intro mult_left_mono) simp_all
        moreover have "X - 1 / 2 ^ 24 \<le> X * (1 - 2 / 2 ^ 53)" using X0 by (simp add: algebra_simps)
        ultimately have "X - 1 \<le> X * k ^ 2 - q' * k" using f by linarith
        then show ?thesis using d e unfolding X_def by simp
      qed
    qed
    from fl_ge_int[OF xm key] have "of_int (x - 1) \<le> t'" by (simp add: t'_def)
    then have "x - 1 \<le> py_int t'" using t'0 by (simp add: py_int_nonneg le_floor_iff)
    then show ?thesis unfolding goal_eq .
  qed
qed

section \<open>Theorems: coordinate mapper\<close>

lemma py_mul_int_float_small:
  assumes "0 \<le> x" "x < 2 ^ 53"
  shows "py_mul_int_float x s = fl (of_int x * s)"
  unfolding py_mul_int_float_def using fl_of_int[OF assms] by simp

lemma rect_contains_iff:
  assumes "0 \<le> rect_width r" "0 \<le> rect_height r"
  shows "rect_contains r p =
           (rect_x r \<le> fst p \<and> fst p < rect_x r + rect_width r \<and>
            rect_y r \<le> snd p \<and> snd p < rect_y r + rect_height r)"
  using assms
  by (auto simp: rect_contains_def Let_def rect_width_def rect_height_def rect_x_def rect_y_def)

lemma rect_contains_width:
  assumes "rect_contains r p"
  shows "rect_width r \<noteq> 0 \<and> rect_height r \<noteq> 0"
  using assms
  by (auto simp: rect_contains_def Let_def rect_width_def rect_height_def split: if_splits)

lemma pixmap_not_null_size:
  assumes "\<not> pixmap_isNull pm"
  shows "0 < pixmap_width pm \<and> 0 < pixmap_height pm"
  using assms by (simp add: pixmap_isNull_def pixmap_width_def pixmap_height_def)

lemma eps2: "(1 + 1 / 2 ^ 53 :: rat) ^ 2 \<le> 1 + 3 / 2 ^ 53"
  by (simp add: power2_eq_square)

text \<open>
  The rescaling of the source, \<open>int(x * (original / drawn))\<close> in double precision, against
  exact arithmetic: for sizes of at most \<open>2 ^ 24\<close> pixels it is the exact quotient
  \<open>x * original div drawn\<close>, except that it can be one less when \<open>drawn\<close> divides
  \<open>x * original\<close> and the rounded factor falls short of the exact one.
\<close>

lemma float_rescale_near_exact:
  fixes W dw x :: int
  assumes "1 \<le> dw" "dw \<le> 2 ^ 24" "1 \<le> W" "W \<le> 2 ^ 24" "0 \<le> x" "x < dw"
  defines "c \<equiv> py_int (py_mul_int_float x (py_truediv W dw))"
  shows "0 \<le> c \<and> (c = (x * W) div dw \<or> (c = (x * W) div dw - 1 \<and> dw dvd x * W))"
proof -
  define e where "e = (x * W) div dw"
  define m where "m = (x * W) mod dw"
  define X :: rat where "X = of_int x"
  define q :: rat where "q = of_int W / of_int dw"
  define s where "s = fl q"
  define t where "t = fl (X * s)"
  define kp :: rat where "kp = 1 + 1 / 2 ^ 53"
  define km :: rat where "km = 1 - 1 / 2 ^ 53"
  have x53: "x < 2 ^ 53" using assms by simp
  have res: "c = py_int t"
    unfolding c_def py_truediv_def py_mul_int_float_small[OF assms(5) x53]
    by (simp add: t_def s_def q_def X_def)
  have dpos: "(0::rat) < of_int dw" using assms by simp
  have m_rng: "0 \<le> m" "m < dw" using assms by (simp_all add: m_def)
  have xw: "x * W = e * dw + m" by (simp add: e_def m_def)
  have Xq: "X * q = of_int e + of_int m / of_int dw"
  proof -
    have "X * q = of_int (x * W) / of_int dw" by (simp add: X_def q_def)
    also have "\<dots> = (of_int e * of_int dw + of_int m) / of_int dw" by (simp add: xw)
    also have "\<dots> = of_int e + of_int m / of_int dw" using dpos by (simp add: field_simps)
    finally show ?thesis .
  qed
  have e0: "0 \<le> e" using assms by (simp add: e_def pos_imp_zdiv_nonneg_iff)
  have X0: "0 \<le> X" using assms by (simp add: X_def)
  have q0: "0 < q" using assms by (simp add: q_def)
  have Xq_lt: "X * q < 2 ^ 24"
  proof -
    have "x * W < dw * 2 ^ 24"
    proof -
      have "x * W \<le> x * 2 ^ 24" using assms by (intro mult_left_mono) simp_all
      also have "\<dots> < dw * 2 ^ 24" using assms by simp
      finally show ?thesis .
    qed
    then have "(of_int (x * W) :: rat) < of_int (dw * 2 ^ 24)" by (simp only: of_int_less_iff)
    then have "(of_int (x * W) :: rat) / of_int dw < 2 ^ 24"
      using dpos by (simp add: pos_divide_less_eq mult.commute)
    then show ?thesis by (simp add: X_def q_def)
  qed
  have e24: "e < 2 ^ 24"
  proof -
    have "(of_int e :: rat) \<le> X * q" using Xq m_rng dpos by simp
    then have "(of_int e :: rat) < 2 ^ 24" using Xq_lt by linarith
    then show ?thesis by (metis of_int_less_iff of_int_numeral of_int_power)
  qed
  have s_b: "q * km \<le> s" "s \<le> q * kp" "0 \<le> s"
    using fl_err0[of q] fl_nonneg[of q] q0 by (simp_all add: s_def km_def kp_def)
  have Xs0: "0 \<le> X * s" using X0 s_b by simp
  have t_b: "0 \<le> t" "t \<le> X * s * kp"
    using fl_err0[OF Xs0] fl_nonneg[OF Xs0] by (simp_all add: t_def kp_def)
  have pt: "py_int t = \<lfloor>t\<rfloor>" using t_b by (simp add: py_int_nonneg)
  have c0: "0 \<le> c" using res pt t_b by simp
  have upper: "\<lfloor>t\<rfloor> \<le> e"
  proof -
    have "X * s \<le> X * (q * kp)" using s_b X0 by (intro mult_left_mono) simp_all
    then have "X * s * kp \<le> X * (q * kp) * kp" by (intro mult_right_mono) (simp_all add: kp_def)
    also have "\<dots> = (X * q) * kp ^ 2" by (simp add: power2_eq_square algebra_simps)
    also have "\<dots> \<le> (X * q) * (1 + 3 / 2 ^ 53)"
      using eps2 X0 q0 unfolding kp_def by (intro mult_left_mono) simp_all
    finally have a: "t \<le> (X * q) * (1 + 3 / 2 ^ 53)" using t_b by linarith
    have "of_int m \<le> (of_int dw :: rat) - 1" using m_rng
      by (metis of_int_1 of_int_diff of_int_le_iff zle_diff1_eq)
    then have "of_int m / (of_int dw :: rat) \<le> (of_int dw - 1) / of_int dw"
      using dpos by (simp add: divide_right_mono)
    also have "\<dots> = 1 - 1 / of_int dw" using dpos by (simp add: field_simps)
    also have "\<dots> \<le> 1 - 1 / 2 ^ 24"
    proof -
      have "(of_int dw :: rat) \<le> 2 ^ 24" using assms by simp
      then have "1 / 2 ^ 24 \<le> 1 / (of_int dw :: rat)" using dpos by (intro divide_left_mono) simp_all
      then show ?thesis by simp
    qed
    finally have b: "X * q \<le> of_int e + 1 - 1 / 2 ^ 24" using Xq by simp
    have "(X * q) * (1 + 3 / 2 ^ 53) = X * q + (X * q) * (3 / 2 ^ 53)" by (simp add: algebra_simps)
    moreover have "(X * q) * (3 / 2 ^ 53) \<le> 2 ^ 24 * (3 / 2 ^ 53)"
      using Xq_lt by (intro mult_right_mono) simp_all
    ultimately have "t < of_int e + 1" using a b by simp
    then show ?thesis by (simp add: floor_le_iff)
  qed
  have low: "X * q - 1 / 2 ^ 29 \<le> X * s"
  proof -
    have "X * (q * km) \<le> X * s" using s_b X0 by (intro mult_left_mono) simp_all
    moreover have "X * (q * km) = X * q - (X * q) / 2 ^ 53" by (simp add: km_def algebra_simps)
    moreover have "(X * q) / 2 ^ 53 \<le> 2 ^ 24 / 2 ^ 53" using Xq_lt by (intro divide_right_mono) simp_all
    ultimately show ?thesis by simp
  qed
  have "c = e \<or> (c = e - 1 \<and> dw dvd x * W)"
  proof (cases "m = 0")
    case False
    then have "1 \<le> m" using m_rng by simp
    then have "(1::rat) \<le> of_int m" by simp
    then have "1 / of_int dw \<le> of_int m / (of_int dw :: rat)" using dpos by (simp add: divide_right_mono)
    moreover have "1 / 2 ^ 24 \<le> 1 / (of_int dw :: rat)"
    proof -
      have "(of_int dw :: rat) \<le> 2 ^ 24" using assms by simp
      then show ?thesis using dpos by (intro divide_left_mono) simp_all
    qed
    ultimately have "of_int e + 1 / 2 ^ 24 \<le> X * q" using Xq by linarith
    then have "of_int e \<le> X * s" using low by simp
    from fl_ge_int[OF e0 _ this] e24 have "of_int e \<le> t" by (simp add: t_def)
    then have "e \<le> \<lfloor>t\<rfloor>" by (simp add: le_floor_iff)
    then show ?thesis using upper res pt by simp
  next
    case True
    then have dv: "dw dvd x * W" by (simp add: m_def dvd_eq_mod_eq_0)
    have Xqe: "X * q = of_int e" using Xq True by simp
    show ?thesis
    proof (cases "e = 0")
      case True
      then have "X * q = 0" using Xqe by simp
      then have "X = 0" using q0 by simp
      then have "t = 0" by (simp add: t_def)
      then show ?thesis using res True by (simp add: py_int_def)
    next
      case False
      then have e1: "0 \<le> e - 1" "e - 1 < 2 ^ 53" using e0 e24 by simp_all
      have "of_int (e - 1) \<le> X * s" using low Xqe by simp
      from fl_ge_int[OF e1 this] have "of_int (e - 1) \<le> t" by (simp add: t_def)
      then have "e - 1 \<le> \<lfloor>t\<rfloor>" by (simp add: le_floor_iff)
      then have "\<lfloor>t\<rfloor> = e \<or> \<lfloor>t\<rfloor> = e - 1" using upper by linarith
      then show ?thesis using res pt dv by auto
    qed
  qed
  then show ?thesis using c0 by (simp add: e_def)
qed

text \<open>
  The rescaling in the words of the specification is the exact quotient: a coordinate
  inside the drawn rectangle is not negative and the sizes are positive.
\<close>

lemma spec_rescale_exact:
  fixes W dw x :: int
  assumes "0 \<le> x" "1 \<le> W" "1 \<le> dw"
  shows "spec_rescale x W dw = (x * W) div dw"
proof -
  have eq: "(of_int x :: rat) * (of_int W / of_int dw) = of_int (x * W) / of_int dw" by simp
  have "0 \<le> x * W" using assms by simp
  then have nn: "0 \<le> (of_int (x * W) :: rat) / of_int dw" using assms by simp
  have "\<lfloor>(of_int (x * W) :: rat) / of_int dw\<rfloor> = (x * W) div dw"
    by (rule floor_divide_of_int_eq)
  then show ?thesis unfolding spec_rescale_def Let_def eq using nn by simp
qed

lemma div_less_bound:
  fixes a d n :: int
  assumes "1 \<le> d" "a < d * n"
  shows "a div d < n"
proof -
  have "d * (a div d) + a mod d = a" by simp
  moreover have "0 \<le> a mod d" using assms(1) by simp
  ultimately have "d * (a div d) < d * n" using assms(2) by linarith
  then show ?thesis using assms(1) by (simp add: mult_less_cancel_left_pos)
qed

text \<open>
  C4, as stated, fails by one pixel where the double-precision product of the source falls
  short of the exact one. A 1024 x 1024 image is drawn at 322 x 322 with its corner at
  (0, 0). The display point (161, 161) lies inside the drawn rectangle; rescaled linearly
  by 1024 / 322 it is exactly (512, 512), which is what the conversion in the words of the
  specification returns. The source computes \<open>int(161 * (1024 / 322))\<close> in floats, and
  returns (511, 511).
\<close>

theorem get_original_point_from_display_rounding_counterexample:
  "rect_contains (rect_of (0, 0) (322, 322)) (161, 161) \<and>
   spec_toOriginal (1024, 1024) (0, 0) (322, 322) (161, 161) = Some (512, 512) \<and>
   get_original_point_from_display (1024, 1024) (rect_of (0, 0) (322, 322)) (161, 161) = Some (511, 511) \<and>
   get_original_point_from_display (1024, 1024) (rect_of (0, 0) (322, 322)) (161, 161) \<noteq>
     spec_toOriginal (1024, 1024) (rect_x (rect_of (0, 0) (322, 322)), rect_y (rect_of (0, 0) (322, 322)))
       (rect_size (rect_of (0, 0) (322, 322))) (161, 161)"
proof -
  have a: "rect_contains (rect_of (0, 0) (322, 322)) (161, 161)" by code_simp
  have b: "spec_toOriginal (1024, 1024) (0, 0) (322, 322) (161, 161) = Some (512, 512)"
    by code_simp
  have c: "get_original_point_from_display (1024, 1024) (rect_of (0, 0) (322, 322)) (161, 161) =
             Some (511, 511)"
    by code_simp
  have d: "rect_x (rect_of (0, 0) (322, 322)) = 0 \<and> rect_y (rect_of (0, 0) (322, 322)) = 0 \<and>
           rect_size (rect_of (0, 0) (322, 322)) = (322, 322)"
    by code_simp
  show ?thesis using a b c d by simp
qed

text \<open>
  C4, amended. An image is loaded (the pixmap is not null), neither side of it nor of the
  drawn rectangle exceeds \<open>2 ^ 24\<close> pixels, and the drawn rectangle has the non-negative
  size that \<open>QRect(QPoint(0, 0), size)\<close> gives it. Then for every display point the
  display-to-original conversion returns none exactly when the conversion in the words of
  the specification does, that is when the point lies outside the drawn rectangle.
  Otherwise it returns a point of the original image, each coordinate in
  \<open>[0, originalDimension - 1]\<close>, and on each axis that coordinate is the linearly rescaled
  and clamped one of the specification, or one less than it; it can be one less only when
  the drawn size divides the product of the coordinate and the original size.
\<close>

theorem get_original_point_from_display_near_spec:
  assumes "\<not> pixmap_isNull pm"
    and "pixmap_width pm \<le> 2 ^ 24" and "pixmap_height pm \<le> 2 ^ 24"
    and "0 \<le> rect_width r" and "rect_width r \<le> 2 ^ 24"
    and "0 \<le> rect_height r" and "rect_height r \<le> 2 ^ 24"
  shows "case spec_toOriginal pm (rect_x r, rect_y r) (rect_size r) p of
           None \<Rightarrow> get_original_point_from_display pm r p = None
         | Some s \<Rightarrow>
             (\<exists>q. get_original_point_from_display pm r p = Some q \<and>
                  0 \<le> fst q \<and> fst q \<le> pixmap_width pm - 1 \<and>
                  0 \<le> snd q \<and> snd q \<le> pixmap_height pm - 1 \<and>
                  (fst q = fst s \<or>
                   fst q = fst s - 1 \<and> rect_width r dvd (fst p - rect_x r) * pixmap_width pm) \<and>
                  (snd q = snd s \<or>
                   snd q = snd s - 1 \<and> rect_height r dvd (snd p - rect_y r) * pixmap_height pm))"
proof (cases "rect_contains r p")
  case False
  then have "spec_toOriginal pm (rect_x r, rect_y r) (rect_size r) p = None"
    unfolding spec_toOriginal_def
    by (auto simp: rect_contains_iff[OF assms(4,6)] rect_size_def)
  moreover have "get_original_point_from_display pm r p = None"
    using False unfolding get_original_point_from_display_def by simp
  ultimately show ?thesis by simp
next
  case True
  define W where "W = pixmap_width pm"
  define H where "H = pixmap_height pm"
  define dw where "dw = rect_width r"
  define dh where "dh = rect_height r"
  define x where "x = fst p - rect_x r"
  define y where "y = snd p - rect_y r"
  define cx where "cx = py_int (py_mul_int_float x (py_truediv W dw))"
  define cy where "cy = py_int (py_mul_int_float y (py_truediv H dh))"
  have WH: "1 \<le> W" "1 \<le> H" "W \<le> 2 ^ 24" "H \<le> 2 ^ 24"
    using pixmap_not_null_size[OF assms(1)] assms(2,3) by (simp_all add: W_def H_def)
  have inside: "0 \<le> x" "x < dw" "0 \<le> y" "y < dh"
    using True unfolding rect_contains_iff[OF assms(4,6)] by (simp_all add: x_def y_def dw_def dh_def)
  then have d1: "1 \<le> dw" "1 \<le> dh" by simp_all
  have d24: "dw \<le> 2 ^ 24" "dh \<le> 2 ^ 24" using assms(5,7) by (simp_all add: dw_def dh_def)
  have nn: "\<not> rect_isNull r"
    using d1 by (auto simp: rect_isNull_def rect_width_def rect_height_def dw_def dh_def)
  have ex: "(x * W) div dw \<le> W - 1" "0 \<le> (x * W) div dw"
  proof -
    have "x * W < dw * W" using inside WH by simp
    then have "(x * W) div dw < W" by (rule div_less_bound[OF d1(1)])
    then show "(x * W) div dw \<le> W - 1" by simp
    show "0 \<le> (x * W) div dw" using inside WH d1 by (simp add: pos_imp_zdiv_nonneg_iff)
  qed
  have ey: "(y * H) div dh \<le> H - 1" "0 \<le> (y * H) div dh"
  proof -
    have "y * H < dh * H" using inside WH by simp
    then have "(y * H) div dh < H" by (rule div_less_bound[OF d1(2)])
    then show "(y * H) div dh \<le> H - 1" by simp
    show "0 \<le> (y * H) div dh" using inside WH d1 by (simp add: pos_imp_zdiv_nonneg_iff)
  qed
  have fx: "0 \<le> cx \<and> (cx = (x * W) div dw \<or> (cx = (x * W) div dw - 1 \<and> dw dvd x * W))"
    unfolding cx_def by (rule float_rescale_near_exact[OF d1(1) d24(1) WH(1) WH(3) inside(1,2)])
  have fy: "0 \<le> cy \<and> (cy = (y * H) div dh \<or> (cy = (y * H) div dh - 1 \<and> dh dvd y * H))"
    unfolding cy_def by (rule float_rescale_near_exact[OF d1(2) d24(2) WH(2) WH(4) inside(3,4)])
  have cxr: "cx \<le> W - 1" using fx ex by linarith
  have cyr: "cy \<le> H - 1" using fy ey by linarith
  have spec: "spec_toOriginal pm (rect_x r, rect_y r) (rect_size r) p =
                Some ((x * W) div dw, (y * H) div dh)"
  proof -
    have "\<not> (fst p < rect_x r \<or> rect_x r + rect_width r \<le> fst p \<or>
              snd p < rect_y r \<or> rect_y r + rect_height r \<le> snd p)"
      using True unfolding rect_contains_iff[OF assms(4,6)] by auto
    then have "spec_toOriginal pm (rect_x r, rect_y r) (rect_size r) p =
                 Some (spec_clamp 0 (W - 1) (spec_rescale x W dw),
                       spec_clamp 0 (H - 1) (spec_rescale y H dh))"
      unfolding spec_toOriginal_def
      by (simp add: rect_size_def W_def H_def dw_def dh_def x_def y_def
          pixmap_width_def pixmap_height_def)
    also have "spec_rescale x W dw = (x * W) div dw"
      by (rule spec_rescale_exact[OF inside(1) WH(1) d1(1)])
    also have "spec_rescale y H dh = (y * H) div dh"
      by (rule spec_rescale_exact[OF inside(3) WH(2) d1(2)])
    finally show ?thesis using ex ey by (simp add: spec_clamp_def)
  qed
  have code: "get_original_point_from_display pm r p = Some (cx, cy)"
  proof -
    have "get_original_point_from_display pm r p =
            Some (max 0 (min cx (W - 1)), max 0 (min cy (H - 1)))"
      unfolding get_original_point_from_display_def
      using assms(1) nn True
      by (simp add: Let_def cx_def cy_def W_def H_def dw_def dh_def x_def y_def)
    then show ?thesis using fx fy cxr cyr by simp
  qed
  have "0 \<le> fst (cx, cy) \<and> fst (cx, cy) \<le> pixmap_width pm - 1 \<and>
        0 \<le> snd (cx, cy) \<and> snd (cx, cy) \<le> pixmap_height pm - 1 \<and>
        (fst (cx, cy) = (x * W) div dw \<or>
         fst (cx, cy) = (x * W) div dw - 1 \<and> rect_width r dvd (fst p - rect_x r) * pixmap_width pm) \<and>
        (snd (cx, cy) = (y * H) div dh \<or>
         snd (cx, cy) = (y * H) div dh - 1 \<and> rect_height r dvd (snd p - rect_y r) * pixmap_height pm)"
    using fx fy cxr cyr by (simp add: W_def H_def dw_def dh_def x_def y_def)
  then show ?thesis unfolding spec code by simp
qed

theorem get_original_point_from_display_near_spec_witness:
  "spec_toOriginal (1024, 1024) (0, 0) (322, 322) (100, 161) = Some (318, 512) \<and>
   get_original_point_from_display (1024, 1024) (rect_of (0, 0) (322, 322)) (100, 161) = Some (318, 511) \<and>
   (\<exists>q. get_original_point_from_display (1024, 1024) (rect_of (0, 0) (322, 322)) (100, 161) = Some q \<and>
        0 \<le> fst q \<and> fst q \<le> 1023 \<and> 0 \<le> snd q \<and> snd q \<le> 1023 \<and>
        (fst q = 318 \<or> fst q = 317 \<and> (322 :: int) dvd 100 * 1024) \<and>
        (snd q = 512 \<or> snd q = 511 \<and> (322 :: int) dvd 161 * 1024)) \<and>
   spec_toOriginal (1024, 1024) (0, 0) (322, 322) (322, 161) = None \<and>
   get_original_point_from_display (1024, 1024) (rect_of (0, 0) (322, 322)) (322, 161) = None"
proof -
  let ?r = "rect_of (0, 0) (322, 322)"
  have a: "\<not> pixmap_isNull (1024, 1024)" by (simp add: pixmap_isNull_def)
  have b: "pixmap_width (1024, 1024) \<le> 2 ^ 24" "pixmap_height (1024, 1024) \<le> 2 ^ 24"
    by (simp_all add: pixmap_width_def pixmap_height_def)
  have c: "0 \<le> rect_width ?r" "rect_width ?r \<le> 2 ^ 24" "0 \<le> rect_height ?r" "rect_height ?r \<le> 2 ^ 24"
    by (simp_all add: rect_width_def rect_height_def rect_of_def)
  have g: "rect_x ?r = 0" "rect_y ?r = 0" "rect_size ?r = (322, 322)"
          "rect_width ?r = 322" "rect_height ?r = 322"
          "pixmap_width (1024, 1024) = 1024" "pixmap_height (1024, 1024) = 1024"
    by (simp_all add: rect_x_def rect_y_def rect_size_def rect_width_def rect_height_def rect_of_def
        pixmap_width_def pixmap_height_def)
  have s1: "spec_toOriginal (1024, 1024) (0, 0) (322, 322) (100, 161) = Some (318, 512)"
    by code_simp
  have s2: "spec_toOriginal (1024, 1024) (0, 0) (322, 322) (322, 161) = None"
    by code_simp
  have c1: "get_original_point_from_display (1024, 1024) ?r (100, 161) = Some (318, 511)"
    by code_simp
  have t1: "\<exists>q. get_original_point_from_display (1024, 1024) ?r (100, 161) = Some q \<and>
        0 \<le> fst q \<and> fst q \<le> 1023 \<and> 0 \<le> snd q \<and> snd q \<le> 1023 \<and>
        (fst q = 318 \<or> fst q = 317 \<and> (322 :: int) dvd 100 * 1024) \<and>
        (snd q = 512 \<or> snd q = 511 \<and> (322 :: int) dvd 161 * 1024)"
    using get_original_point_from_display_near_spec[OF a b c, of "(100, 161)"]
    unfolding g s1 by simp
  have t2: "get_original_point_from_display (1024, 1024) ?r (322, 161) = None"
    using get_original_point_from_display_near_spec[OF a b c, of "(322, 161)"]
    unfolding g s2 by simp
  from s1 c1 t1 s2 t2 show ?thesis by blast
qed

text \<open>
  C1, as stated, fails when the image is drawn enlarged. A 100 x 100 image in a 400 x 400
  label is drawn at 400 x 400; the display point (203, 203) maps to the original point
  (50, 50), which maps back to the display point (200, 200), three pixels away.
\<close>

theorem roundtrip_enlarged_counterexample:
  "drawn_rect_for (100, 100) (rect_of (0, 0) (400, 400)) = rect_of (0, 0) (400, 400) \<and>
   rect_contains (rect_of (0, 0) (400, 400)) (203, 203) \<and>
   get_original_point_from_display (100, 100) (rect_of (0, 0) (400, 400)) (203, 203) = Some (50, 50) \<and>
   get_display_point_from_original (100, 100) (rect_of (0, 0) (400, 400)) (50, 50) = Some (200, 200) \<and>
   \<not> \<bar>(200 :: int) - 203\<bar> \<le> 1"
proof -
  have a: "drawn_rect_for (100, 100) (rect_of (0, 0) (400, 400)) = rect_of (0, 0) (400, 400)"
    by code_simp
  have b: "rect_contains (rect_of (0, 0) (400, 400)) (203, 203)"
    by code_simp
  have c: "get_original_point_from_display (100, 100) (rect_of (0, 0) (400, 400)) (203, 203) = Some (50, 50)"
    by code_simp
  have d: "get_display_point_from_original (100, 100) (rect_of (0, 0) (400, 400)) (50, 50) = Some (200, 200)"
    by code_simp
  show ?thesis using a b c d by simp
qed

text \<open>
  C1, amended. When the image is drawn no larger than it is (the drawn rectangle is at most
  as wide and as high as the original image, whose sides are at most \<open>2 ^ 24\<close> pixels),
  every display point inside the drawn rectangle is mapped to an original point, and
  mapping that point back gives a display point at most one pixel away per axis. The
  bound holds for the double-precision arithmetic of the source, not only for exact
  arithmetic.
\<close>

theorem display_original_roundtrip_bounded:
  assumes pm: "\<not> pixmap_isNull pm"
    and small: "pixmap_width pm \<le> 2 ^ 24" "pixmap_height pm \<le> 2 ^ 24"
    and w: "0 < rect_width r" "rect_width r \<le> pixmap_width pm"
    and h: "0 < rect_height r" "rect_height r \<le> pixmap_height pm"
    and inside: "rect_contains r p"
  shows "\<exists>q d. get_original_point_from_display pm r p = Some q \<and>
               get_display_point_from_original pm r q = Some d \<and>
               \<bar>fst d - fst p\<bar> \<le> 1 \<and> \<bar>snd d - snd p\<bar> \<le> 1"
proof -
  define W where "W = pixmap_width pm"
  define H where "H = pixmap_height pm"
  define dw where "dw = rect_width r"
  define dh where "dh = rect_height r"
  define x where "x = fst p - rect_x r"
  define y where "y = snd p - rect_y r"
  have rng: "0 \<le> x" "x < dw" "0 \<le> y" "y < dh"
    using inside w(1) h(1) rect_contains_iff[of r p]
    by (simp_all add: x_def y_def dw_def dh_def)
  have nn: "\<not> rect_isNull r"
    using w(1) by (auto simp: rect_isNull_def rect_width_def)
  define ox where "ox = max 0 (min (py_int (py_mul_int_float x (py_truediv W dw))) (W - 1))"
  define oy where "oy = max 0 (min (py_int (py_mul_int_float y (py_truediv H dh))) (H - 1))"
  have Wpos: "1 \<le> W" "1 \<le> H" using pixmap_not_null_size[OF pm] by (simp_all add: W_def H_def)
  have q: "get_original_point_from_display pm r p = Some (ox, oy)"
    unfolding get_original_point_from_display_def
    using pm nn inside
    by (simp add: Let_def ox_def oy_def x_def y_def W_def H_def dw_def dh_def)
  define bx where "bx = py_int (py_mul_int_float ox (py_truediv dw W))"
  define by' where "by' = py_int (py_mul_int_float oy (py_truediv dh H))"
  have d: "get_display_point_from_original pm r (ox, oy) = Some (rect_x r + bx, rect_y r + by')"
    unfolding get_display_point_from_original_def
    using pm nn by (simp add: Let_def bx_def by'_def W_def H_def dw_def dh_def)
  have W24: "W \<le> 2 ^ 24" "H \<le> 2 ^ 24" using small by (simp_all add: W_def H_def)
  have dwW: "1 \<le> dw" "dw \<le> W" "1 \<le> dh" "dh \<le> H"
    using w h by (simp_all add: dw_def dh_def W_def H_def)
  have x53: "x < 2 ^ 53" "y < 2 ^ 53" using rng dwW W24 by simp_all
  have ox_rng: "0 \<le> ox" "ox < 2 ^ 53" "0 \<le> oy" "oy < 2 ^ 53"
    using Wpos W24 by (simp_all add: ox_def oy_def)
  have ox_eq: "ox = max 0 (min (py_int (fl (of_int x * fl (of_int W / of_int dw)))) (W - 1))"
    unfolding ox_def py_truediv_def py_mul_int_float_small[OF rng(1) x53(1)] ..
  have oy_eq: "oy = max 0 (min (py_int (fl (of_int y * fl (of_int H / of_int dh)))) (H - 1))"
    unfolding oy_def py_truediv_def py_mul_int_float_small[OF rng(3) x53(2)] ..
  have bx_eq: "bx = py_int (fl (of_int ox * fl (of_int dw / of_int W)))"
    unfolding bx_def py_truediv_def py_mul_int_float_small[OF ox_rng(1,2)] ..
  have by_eq: "by' = py_int (fl (of_int oy * fl (of_int dh / of_int H)))"
    unfolding by'_def py_truediv_def py_mul_int_float_small[OF ox_rng(3,4)] ..
  have bxb: "x - 1 \<le> bx" "bx \<le> x"
    using axis_lower[OF dwW(1,2) W24(1) rng(1,2)] axis_upper[OF dwW(1,2) W24(1) rng(1,2)]
    unfolding bx_eq ox_eq by simp_all
  have byb: "y - 1 \<le> by'" "by' \<le> y"
    using axis_lower[OF dwW(3,4) W24(2) rng(3,4)] axis_upper[OF dwW(3,4) W24(2) rng(3,4)]
    unfolding by_eq oy_eq by simp_all
  have "\<bar>fst (rect_x r + bx, rect_y r + by') - fst p\<bar> \<le> 1"
    using bxb by (simp add: x_def)
  moreover have "\<bar>snd (rect_x r + bx, rect_y r + by') - snd p\<bar> \<le> 1"
    using byb by (simp add: y_def)
  ultimately show ?thesis using q d by blast
qed

theorem display_original_roundtrip_bounded_witness:
  "\<exists>q d. get_original_point_from_display (400, 300) (rect_of (5, 7) (200, 150)) (42, 91) = Some q \<and>
         get_display_point_from_original (400, 300) (rect_of (5, 7) (200, 150)) q = Some d \<and>
         \<bar>fst d - 42\<bar> \<le> 1 \<and> \<bar>snd d - 91\<bar> \<le> 1"
  using display_original_roundtrip_bounded[of "(400, 300)" "rect_of (5, 7) (200, 150)" "(42, 91)"]
  by (simp add: pixmap_isNull_def pixmap_width_def pixmap_height_def rect_width_def
        rect_height_def rect_of_def rect_contains_def)

section \<open>Theorems: annotation sessions\<close>

lemma hits_within: "hits pm r c p \<Longrightarrow> within_threshold pm r c p"
  by (auto simp: hits_def within_threshold_def split: option.splits)

lemma first_hit_None: "first_hit f xs = None \<longleftrightarrow> (\<forall>x\<in>set xs. \<not> f x)"
  by (induction xs) auto

lemma first_hit_weaken:
  assumes "first_hit f xs = Some i" "\<And>x. f x \<Longrightarrow> g x"
  shows "\<exists>j. first_hit g xs = Some j"
proof (cases "first_hit g xs")
  case None
  then have "\<forall>x\<in>set xs. \<not> f x" using assms(2) by (auto simp: first_hit_None)
  then have "first_hit f xs = None" by (simp add: first_hit_None)
  with assms(1) show ?thesis by simp
qed auto

lemma first_hit_cong:
  "(\<And>x. x \<in> set xs \<Longrightarrow> f x = g x) \<Longrightarrow> first_hit f xs = first_hit g xs"
  by (induction xs) auto

lemma py_setitem_length: "py_setitem xs i v = Inr ys \<Longrightarrow> length ys = length xs"
  by (auto simp: py_setitem_def split: if_splits)

lemma cl_mousePressEvent_length:
  "length (mask_points s) \<le> 4 \<Longrightarrow> length (mask_points (cl_mousePressEvent s event)) \<le> 4"
  by (auto simp: cl_mousePressEvent_def Let_def split: option.splits)

lemma cl_mouseMoveEvent_length:
  "cl_mouseMoveEvent s event = Inr s' \<Longrightarrow> length (mask_points s') = length (mask_points s)"
  by (auto simp: cl_mouseMoveEvent_def Let_def py_setitem_length split: if_splits sum.splits)

lemma set_images_points: "mask_points (set_images s a b r) = []"
  by (simp add: set_images_def combine_pixmaps_def cl_update_display_def)

lemma mask_step_length:
  assumes "length (mask_points s) \<le> 4" "mask_step s x = Inr s'"
  shows "length (mask_points s') \<le> 4"
proof (cases x)
  case (SetImages a b r)
  then show ?thesis using assms by (auto simp: set_images_points)
next
  case (Resize r)
  then show ?thesis using assms by (auto simp: cl_update_display_def)
next
  case (Press e)
  then show ?thesis using assms cl_mousePressEvent_length[of s e] by auto
next
  case (Move e)
  then show ?thesis using assms cl_mouseMoveEvent_length[of s e s'] by auto
next
  case Release
  then show ?thesis using assms by (auto simp: cl_mouseReleaseEvent_def)
next
  case (SetMaskMode b)
  then show ?thesis using assms by (auto simp: set_mask_mode_enabled_def)
next
  case ResetMask
  then show ?thesis using assms by (auto simp: reset_mask_def)
qed

lemma mask_run_length:
  "length (mask_points s) \<le> 4 \<Longrightarrow> mask_run s xs = Inr s' \<Longrightarrow> length (mask_points s') \<le> 4"
proof (induction xs arbitrary: s)
  case Nil
  then show ?case by simp
next
  case (Cons x xs)
  show ?case
  proof (cases "mask_step s x")
    case (Inl e)
    with Cons.prems show ?thesis by simp
  next
    case (Inr s1)
    then have "length (mask_points s1) \<le> 4" using Cons.prems(1) mask_step_length by blast
    moreover have "mask_run s1 xs = Inr s'" using Cons.prems(2) Inr by simp
    ultimately show ?thesis by (rule Cons.IH)
  qed
qed

lemma press_full_mask:
  assumes "length (mask_points s) = 4"
  shows "mask_points (cl_mousePressEvent s event) = mask_points s \<and>
         mask_points_changed (cl_mousePressEvent s event) = mask_points_changed s"
  using assms by (auto simp: cl_mousePressEvent_def Let_def split: option.splits)

text \<open>
  C5. In the mask annotation session the point list never exceeds four points. Every
  operation of the session that returns keeps a list of at most four points at most four
  points long, so every state reached from the initial state has at most four points. With
  four points present a mouse press leaves the point list unchanged and announces nothing;
  unless the press is within the threshold of a stored handle, it is a no-op on the whole
  state, apart from resetting the index of the dragged point to \<open>-1\<close>.
\<close>

theorem mask_points_at_most_four:
  "(length (mask_points s) \<le> 4 \<longrightarrow>
      (\<forall>s'. mask_step s x = Inr s' \<longrightarrow> length (mask_points s') \<le> 4)) \<and>
   (\<forall>xs s'. mask_run cl_init xs = Inr s' \<longrightarrow> length (mask_points s') \<le> 4) \<and>
   (length (mask_points s) = 4 \<longrightarrow>
      mask_points (cl_mousePressEvent s event) = mask_points s \<and>
      mask_points_changed (cl_mousePressEvent s event) = mask_points_changed s \<and>
      (cl_mousePressEvent s event = s \<or>
       cl_mousePressEvent s event = s\<lparr>cl_dragging_point_index := - 1\<rparr> \<or>
       (\<exists>i. first_hit (within_threshold (combined_pixmap s) (cl_drawn_pixmap_rect s) (ev_pos event))
              (mask_points s) = Some i)))"
proof -
  have a: "length (mask_points s) \<le> 4 \<longrightarrow>
      (\<forall>s'. mask_step s x = Inr s' \<longrightarrow> length (mask_points s') \<le> 4)"
    using mask_step_length by blast
  have b: "\<forall>xs s'. mask_run cl_init xs = Inr s' \<longrightarrow> length (mask_points s') \<le> 4"
    using mask_run_length[of cl_init] by (auto simp: cl_init_def)
  have c: "cl_mousePressEvent s event = s \<or>
       cl_mousePressEvent s event = s\<lparr>cl_dragging_point_index := - 1\<rparr> \<or>
       (\<exists>i. first_hit (within_threshold (combined_pixmap s) (cl_drawn_pixmap_rect s) (ev_pos event))
              (mask_points s) = Some i)"
    if four: "length (mask_points s) = 4"
  proof (cases "first_hit (hits (combined_pixmap s) (cl_drawn_pixmap_rect s) (ev_pos event)) (mask_points s)")
    case None
    then show ?thesis using four by (auto simp: cl_mousePressEvent_def Let_def)
  next
    case (Some i)
    have "\<exists>j. first_hit (within_threshold (combined_pixmap s) (cl_drawn_pixmap_rect s) (ev_pos event))
              (mask_points s) = Some j"
      using Some by (rule first_hit_weaken) (rule hits_within)
    then show ?thesis by blast
  qed
  show ?thesis using a b c press_full_mask by blast
qed

theorem mask_points_at_most_four_witness:
  "length (mask_points example_combined_label) = 4 \<and>
   mask_step example_combined_label (Press (click (50, 50) LeftButton)) = Inr example_combined_label \<and>
   mask_points (cl_mousePressEvent example_combined_label (click (50, 50) LeftButton)) =
     [(10, 10), (90, 10), (90, 90), (10, 90)] \<and>
   length (mask_points (cl_mousePressEvent example_combined_label (click (50, 50) LeftButton))) \<le> 4"
proof -
  have four: "length (mask_points example_combined_label) = 4"
    by (simp add: example_combined_label_def)
  have step: "mask_step example_combined_label (Press (click (50, 50) LeftButton)) = Inr example_combined_label"
    by code_simp
  from mask_points_at_most_four[of example_combined_label "Press (click (50, 50) LeftButton)"
      "click (50, 50) LeftButton"] four
  have same: "mask_points (cl_mousePressEvent example_combined_label (click (50, 50) LeftButton)) =
        mask_points example_combined_label"
    and le: "length (mask_points (cl_mousePressEvent example_combined_label (click (50, 50) LeftButton))) \<le> 4"
    by auto
  show ?thesis using four step same le by (simp add: example_combined_label_def)
qed

lemma first_hit_Some:
  "first_hit f xs = Some i \<Longrightarrow> i < length xs \<and> f (xs ! i) \<and> (\<forall>j<i. \<not> f (xs ! j))"
proof (induction xs arbitrary: i)
  case Nil
  then show ?case by simp
next
  case (Cons x xs)
  show ?case
  proof (cases "f x")
    case True
    with Cons.prems show ?thesis by simp
  next
    case False
    with Cons.prems obtain k where k: "first_hit f xs = Some k" "i = Suc k" by auto
    from Cons.IH[OF k(1)] False k(2) show ?thesis
      by (auto simp: less_Suc_eq_0_disj)
  qed
qed

lemma py_pop_nth:
  assumes "i < length xs"
  shows "length (py_pop xs i) = length xs - 1 \<and>
         (\<forall>j<i. py_pop xs i ! j = xs ! j) \<and>
         (\<forall>j. i \<le> j \<and> j < length xs - 1 \<longrightarrow> py_pop xs i ! j = xs ! Suc j)"
  using assms by (auto simp: py_pop_def nth_append min_def)

text \<open>
  C8, amended. With point mode enabled and an image loaded, a right click that lies inside
  the drawn rectangle (it maps to an original point, which is not the point (0, 0)) and is
  within the threshold of a stored point removes the first such point in insertion order:
  the list of length \<open>n\<close> becomes a list of length \<open>n - 1\<close>, the points before the removed
  index stay where they are and the points after it move down by one. No stored point is
  drawn at the widget origin (0, 0), as is the case for a label with a border.
\<close>

theorem right_click_removes_first_hit:
  assumes "point_mode_enabled s" and "\<not> pixmap_isNull (original_pixmap s)"
    and "get_original_point_from_display (original_pixmap s)
           (sl_drawn_pixmap_rect s) (ev_pos event) = Some q" and "q \<noteq> (0, 0)"
    and "\<forall>p\<in>set (current_points s).
           get_display_point_from_original (original_pixmap s) (sl_drawn_pixmap_rect s) p \<noteq> Some (0, 0)"
    and "ev_button event = RightButton"
    and "first_hit (within_threshold (original_pixmap s) (sl_drawn_pixmap_rect s) (ev_pos event))
           (current_points s) = Some i"
  shows "i < length (current_points s) \<and>
         current_points (sl_mousePressEvent s event) =
           take i (current_points s) @ drop (Suc i) (current_points s) \<and>
         length (current_points (sl_mousePressEvent s event)) = length (current_points s) - 1 \<and>
         (\<forall>j<i. current_points (sl_mousePressEvent s event) ! j = current_points s ! j) \<and>
         (\<forall>j. i \<le> j \<and> j < length (current_points s) - 1 \<longrightarrow>
              current_points (sl_mousePressEvent s event) ! j = current_points s ! Suc j) \<and>
         points_changed (sl_mousePressEvent s event) =
           points_changed s @ [current_points (sl_mousePressEvent s event)]"
proof -
  let ?pm = "original_pixmap s" and ?r = "sl_drawn_pixmap_rect s"
  have same: "\<And>p. p \<in> set (current_points s) \<Longrightarrow>
      hits ?pm ?r (ev_pos event) p = within_threshold ?pm ?r (ev_pos event) p"
    using assms(5) by (auto simp: hits_def within_threshold_def truthy_point_def split: option.splits)
  have fh: "first_hit (hits ?pm ?r (ev_pos event)) (current_points s) = Some i"
    using first_hit_cong[of "current_points s" "hits ?pm ?r (ev_pos event)"
        "within_threshold ?pm ?r (ev_pos event)"] same assms(7) by simp
  have tr: "truthy_opt_point (get_original_point_from_display ?pm ?r (ev_pos event))"
    using assms(3,4) by (simp add: truthy_point_def)
  have pts: "current_points (sl_mousePressEvent s event) = py_pop (current_points s) i"
    and sig: "points_changed (sl_mousePressEvent s event) = points_changed s @ [py_pop (current_points s) i]"
    using assms(1,2,6) tr fh by (simp_all add: sl_mousePressEvent_def Let_def)
  from first_hit_Some[OF assms(7)] have i: "i < length (current_points s)" by blast
  show ?thesis
    using i py_pop_nth[OF i] unfolding pts sig by (simp add: py_pop_def)
qed

theorem right_click_removes_first_hit_witness:
  "current_points (sl_mousePressEvent example_single_label (click (12, 15) RightButton)) = [(40, 40)] \<and>
   current_points example_single_label = [(0, 5), (40, 40)]"
proof -
  let ?s = example_single_label and ?e = "click (12, 15) RightButton"
  have a: "point_mode_enabled ?s" by (simp add: example_single_label_def)
  have b: "\<not> pixmap_isNull (original_pixmap ?s)" by (simp add: example_single_label_def pixmap_isNull_def)
  have c: "get_original_point_from_display (original_pixmap ?s) (sl_drawn_pixmap_rect ?s) (ev_pos ?e) = Some (2, 5)"
    by code_simp
  have d: "(2, 5) \<noteq> (0, 0 :: int)" by simp
  have e: "\<forall>p\<in>set (current_points ?s).
           get_display_point_from_original (original_pixmap ?s) (sl_drawn_pixmap_rect ?s) p \<noteq> Some (0, 0)"
    by code_simp
  have f: "ev_button ?e = RightButton" by (simp add: click_def)
  have g: "first_hit (within_threshold (original_pixmap ?s) (sl_drawn_pixmap_rect ?s) (ev_pos ?e))
           (current_points ?s) = Some 0" by code_simp
  have pts: "current_points ?s = [(0, 5), (40, 40)]" by (simp add: example_single_label_def)
  from right_click_removes_first_hit[OF a b c d e f g]
  have "current_points (sl_mousePressEvent ?s ?e) = take 0 (current_points ?s) @ drop (Suc 0) (current_points ?s)"
    by blast
  then show ?thesis using pts by simp
qed

text \<open>
  C8, as stated, fails for a click outside the drawn image. The image is drawn at
  (10, 10); the stored point (0, 5) is shown at (10, 15). A right click at (8, 15) is two
  pixels from it, within the threshold, but lies left of the drawn rectangle: the handler
  returns before it looks at the stored points, and both points remain.
\<close>

theorem right_click_outside_image_counterexample:
  "point_mode_enabled example_single_label \<and>
   ev_button (click (8, 15) RightButton) = RightButton \<and>
   get_display_point_from_original (original_pixmap example_single_label)
     (sl_drawn_pixmap_rect example_single_label) (0, 5) = Some (10, 15) \<and>
   manhattanLength (point_diff (8, 15) (10, 15)) = 2 \<and>
   first_hit (within_threshold (original_pixmap example_single_label)
       (sl_drawn_pixmap_rect example_single_label) (ev_pos (click (8, 15) RightButton)))
     (current_points example_single_label) = Some 0 \<and>
   current_points example_single_label = [(0, 5), (40, 40)] \<and>
   current_points (sl_mousePressEvent example_single_label (click (8, 15) RightButton)) =
     [(0, 5), (40, 40)]"
proof -
  have a: "point_mode_enabled example_single_label" by (simp add: example_single_label_def)
  have b: "ev_button (click (8, 15) RightButton) = RightButton" by (simp add: click_def)
  have c: "get_display_point_from_original (original_pixmap example_single_label)
     (sl_drawn_pixmap_rect example_single_label) (0, 5) = Some (10, 15)" by code_simp
  have d: "manhattanLength (point_diff (8, 15) (10, 15)) = 2" by code_simp
  have e: "first_hit (within_threshold (original_pixmap example_single_label)
       (sl_drawn_pixmap_rect example_single_label) (ev_pos (click (8, 15) RightButton)))
     (current_points example_single_label) = Some 0" by code_simp
  have f: "current_points example_single_label = [(0, 5), (40, 40)]" by (simp add: example_single_label_def)
  have g: "current_points (sl_mousePressEvent example_single_label (click (8, 15) RightButton)) =
     [(0, 5), (40, 40)]" by code_simp
  show ?thesis using a b c d e f g by blast
qed

section \<open>Theorems: persistence, scanner and viewer\<close>

lemma lookup_put:
  "put t p c = Inr t' \<Longrightarrow> lookup t' p = Some (File c)"
  "put_entries es x xs c = Inr es' \<Longrightarrow> lookup_entries es' x xs = Some (File c)"
proof (induction t p c and es x xs c arbitrary: t' and es' rule: put_put_entries.induct)
  case (6 e es x xs c)
  then show ?case by (auto split: if_splits sum.splits)
qed (auto split: if_splits sum.splits)

lemma put_again:
  "put t p c = Inr t' \<Longrightarrow> \<exists>t''. put t' p c' = Inr t'' \<and> file_paths t'' = file_paths t'"
  "put_entries es x xs c = Inr es' \<Longrightarrow>
     \<exists>es''. put_entries es' x xs c' = Inr es'' \<and> entries_file_paths es'' = entries_file_paths es'"
proof (induction t p c and es x xs c arbitrary: t' and es' rule: put_put_entries.induct)
  case (4 es x xs c)
  then obtain es1 where "put_entries es x xs c = Inr es1" "t' = Dir es1"
    by (auto split: sum.splits)
  with 4 show ?case by fastforce
next
  case (6 e es x xs c)
  show ?case
  proof (cases "fst e = x")
    case True
    with 6(3) obtain n where n: "put (snd e) xs c = Inr n" "es' = (x, n) # es"
      by (auto split: sum.splits)
    from 6(1)[OF True n(1)] obtain n' where "put n xs c' = Inr n'" "file_paths n' = file_paths n" by blast
    then show ?thesis using n by simp
  next
    case False
    with 6(3) obtain es1 where e: "put_entries es x xs c = Inr es1" "es' = e # es1"
      by (auto split: sum.splits)
    from 6(2)[OF False e(1)] obtain es2 where "put_entries es1 x xs c' = Inr es2"
      "entries_file_paths es2 = entries_file_paths es1" by blast
    then show ?thesis using e False by simp
  qed
qed (auto split: if_splits)

lemma json_dump_to_Inr:
  assumes "json_dump_to env p encoding v indent ensure_ascii = Inr env1"
  shows "cwd env1 = cwd env"
    and "write_log env1 = write_log env @
           [\<lparr>jw_path = p, jw_encoding = encoding, jw_indent = indent,
             jw_ensure_ascii = ensure_ascii, jw_data = v\<rparr>]"
    and "open_read env1 p = Inr (JsonDoc v)"
    and "\<exists>env2. json_dump_to env1 p encoding' v' indent' ensure_ascii' = Inr env2 \<and>
                file_paths (fs_root env2) = file_paths (fs_root env1)"
proof -
  let ?cs = "path_components (abspath (cwd env) p)"
  from assms obtain r where r: "put (fs_root env) ?cs (JsonDoc v) = Inr r"
    and e1: "env1 = env\<lparr>fs_root := r, write_log := write_log env @
                              [\<lparr>jw_path = p, jw_encoding = encoding, jw_indent = indent,
                                jw_ensure_ascii = ensure_ascii, jw_data = v\<rparr>]\<rparr>"
    by (auto simp: json_dump_to_def split: sum.splits)
  show "cwd env1 = cwd env" using e1 by simp
  show "write_log env1 = write_log env @
           [\<lparr>jw_path = p, jw_encoding = encoding, jw_indent = indent,
             jw_ensure_ascii = ensure_ascii, jw_data = v\<rparr>]" using e1 by simp
  show "open_read env1 p = Inr (JsonDoc v)"
    using lookup_put(1)[OF r] e1 by (simp add: open_read_def resolve_def)
  from put_again(1)[OF r, of "JsonDoc v'"] obtain r' where
    "put r ?cs (JsonDoc v') = Inr r'" "file_paths r' = file_paths r" by blast
  then show "\<exists>env2. json_dump_to env1 p encoding' v' indent' ensure_ascii' = Inr env2 \<and>
                  file_paths (fs_root env2) = file_paths (fs_root env1)"
    using e1 by (simp add: json_dump_to_def)
qed

text \<open>
  C7. The window passes the validation of the save action, with frame paths \<open>f1\<close> and
  \<open>f2\<close>, and the write raises no exception. Then saving reports the path
  \<open>join(dirname(f1), "drag_data_" + base1 + "_to_" + base2 + ".json")\<close>, where the bases
  are the frame file names without their extension. It makes one dump to that path, with
  encoding UTF-8, indent 4 and \<open>ensure_ascii = False\<close>, and the data dumped is the record:
  the object with the file names of the two frames under \<open>frame1_image\<close> and
  \<open>frame2_image\<close>, and under \<open>mask_area\<close>, \<open>source_points\<close> and \<open>target_points\<close> the
  mask, source and target points of the window in their order, each as an object with its
  \<open>x\<close> and \<open>y\<close>. The file at the path then holds that record. Saving the same frame pair
  again, with whatever points, succeeds at the same path, leaves the set of files as it
  was, and the file holds the record of the second save.
\<close>

theorem save_writes_record_to_named_path:
  assumes f1: "image_path_frame1 w = Some f1" "f1 \<noteq> []"
    and f2: "image_path_frame2 w = Some f2" "f2 \<noteq> []"
    and ready: "length (mask_points_on_combined w) = 4" "source_points_on_frame1 w \<noteq> []"
               "length (source_points_on_frame1 w) = length (target_points_on_frame2 w)"
    and saved: "save_coordinates_to_json env w = (env1, dialog)"
               "\<forall>e. dialog \<noteq> CriticalSaveFailed e"
    and again: "image_path_frame1 w2 = Some f1" "image_path_frame2 w2 = Some f2"
               "length (mask_points_on_combined w2) = 4" "source_points_on_frame1 w2 \<noteq> []"
               "length (source_points_on_frame1 w2) = length (target_points_on_frame2 w2)"
  shows "dialog = InformationSaved
           (path_join (dirname f1)
              (''drag_data_'' @ fst (splitext (basename f1)) @ ''_to_'' @
               fst (splitext (basename f2)) @ ''.json'')) \<and>
         write_log env1 = write_log env @
           [\<lparr>jw_path = path_join (dirname f1)
                (''drag_data_'' @ fst (splitext (basename f1)) @ ''_to_'' @
                 fst (splitext (basename f2)) @ ''.json''),
             jw_encoding = ''utf-8'', jw_indent = 4, jw_ensure_ascii = False,
             jw_data =
               JObj [(''frame1_image'', JStr (basename f1)),
                     (''frame2_image'', JStr (basename f2)),
                     (''mask_area'',
                      JArr (map (\<lambda>p. JObj [(''x'', JNum (fst p)), (''y'', JNum (snd p))])
                              (mask_points_on_combined w))),
                     (''source_points'',
                      JArr (map (\<lambda>p. JObj [(''x'', JNum (fst p)), (''y'', JNum (snd p))])
                              (source_points_on_frame1 w))),
                     (''target_points'',
                      JArr (map (\<lambda>p. JObj [(''x'', JNum (fst p)), (''y'', JNum (snd p))])
                              (target_points_on_frame2 w)))]\<rparr>] \<and>
         open_read env1 (path_join (dirname f1)
              (''drag_data_'' @ fst (splitext (basename f1)) @ ''_to_'' @
               fst (splitext (basename f2)) @ ''.json'')) =
           Inr (JsonDoc
             (JObj [(''frame1_image'', JStr (basename f1)),
                    (''frame2_image'', JStr (basename f2)),
                    (''mask_area'',
                     JArr (map (\<lambda>p. JObj [(''x'', JNum (fst p)), (''y'', JNum (snd p))])
                             (mask_points_on_combined w))),
                    (''source_points'',
                     JArr (map (\<lambda>p. JObj [(''x'', JNum (fst p)), (''y'', JNum (snd p))])
                             (source_points_on_frame1 w))),
                    (''target_points'',
                     JArr (map (\<lambda>p. JObj [(''x'', JNum (fst p)), (''y'', JNum (snd p))])
                             (target_points_on_frame2 w)))])) \<and>
         (\<exists>env2. save_coordinates_to_json env1 w2 =
                   (env2, InformationSaved (path_join (dirname f1)
                      (''drag_data_'' @ fst (splitext (basename f1)) @ ''_to_'' @
                       fst (splitext (basename f2)) @ ''.json''))) \<and>
                 file_paths (fs_root env2) = file_paths (fs_root env1) \<and>
                 open_read env2 (path_join (dirname f1)
                      (''drag_data_'' @ fst (splitext (basename f1)) @ ''_to_'' @
                       fst (splitext (basename f2)) @ ''.json'')) =
                   Inr (JsonDoc
                     (JObj [(''frame1_image'', JStr (basename f1)),
                            (''frame2_image'', JStr (basename f2)),
                            (''mask_area'',
                             JArr (map (\<lambda>p. JObj [(''x'', JNum (fst p)), (''y'', JNum (snd p))])
                                     (mask_points_on_combined w2))),
                            (''source_points'',
                             JArr (map (\<lambda>p. JObj [(''x'', JNum (fst p)), (''y'', JNum (snd p))])
                                     (source_points_on_frame1 w2))),
                            (''target_points'',
                             JArr (map (\<lambda>p. JObj [(''x'', JNum (fst p)), (''y'', JNum (snd p))])
                                     (target_points_on_frame2 w2)))])))"
proof -
  define P where "P = path_join (dirname f1)
              (''drag_data_'' @ fst (splitext (basename f1)) @ ''_to_'' @
               fst (splitext (basename f2)) @ ''.json'')"
  define pj where "pj = (\<lambda>p :: qpoint. JObj [(''x'', JNum (fst p)), (''y'', JNum (snd p))])"
  define D where "D = JObj [(''frame1_image'', JStr (basename f1)),
                     (''frame2_image'', JStr (basename f2)),
                     (''mask_area'', JArr (map pj (mask_points_on_combined w))),
                     (''source_points'', JArr (map pj (source_points_on_frame1 w))),
                     (''target_points'', JArr (map pj (target_points_on_frame2 w)))]"
  define D2 where "D2 = JObj [(''frame1_image'', JStr (basename f1)),
                     (''frame2_image'', JStr (basename f2)),
                     (''mask_area'', JArr (map pj (mask_points_on_combined w2))),
                     (''source_points'', JArr (map pj (source_points_on_frame1 w2))),
                     (''target_points'', JArr (map pj (target_points_on_frame2 w2)))]"
  have pjf: "point_json = pj" by (rule ext) (simp add: point_json_def pj_def)
  have rec1: "annotation_record w = D"
    using f1 f2 by (simp add: annotation_record_def D_def pjf)
  have rec2: "annotation_record w2 = D2"
    using again by (simp add: annotation_record_def D2_def pjf)
  have op: "output_path f1 f2 = P" by (simp add: output_path_def P_def Let_def)
  have tgt: "target_points_on_frame2 w \<noteq> []" using ready by auto
  have tgt2: "target_points_on_frame2 w2 \<noteq> []" using again by auto
  have s1: "save_coordinates_to_json env w =
              (case json_dump_to env P ''utf-8'' D 4 False of
                 Inl e \<Rightarrow> (env, CriticalSaveFailed e) | Inr env' \<Rightarrow> (env', InformationSaved P))"
    using f1 f2 ready tgt by (simp add: save_coordinates_to_json_def op Let_def rec1)
  have s2: "\<And>e. save_coordinates_to_json e w2 =
              (case json_dump_to e P ''utf-8'' D2 4 False of
                 Inl x \<Rightarrow> (e, CriticalSaveFailed x) | Inr env' \<Rightarrow> (env', InformationSaved P))"
    using f1 f2 again tgt2 by (simp add: save_coordinates_to_json_def op Let_def rec2)
  have d: "json_dump_to env P ''utf-8'' D 4 False = Inr env1"
  proof (cases "json_dump_to env P ''utf-8'' D 4 False")
    case (Inl e)
    then have "dialog = CriticalSaveFailed e" using s1 saved(1) by simp
    then show ?thesis using saved(2) by simp
  next
    case (Inr a)
    then show ?thesis using s1 saved(1) by simp
  qed
  then have dlg: "dialog = InformationSaved P" using s1 saved(1) by simp
  from json_dump_to_Inr(4)[OF d, of "''utf-8''" D2 4 False] obtain env2 where
    e2: "json_dump_to env1 P ''utf-8'' D2 4 False = Inr env2"
        "file_paths (fs_root env2) = file_paths (fs_root env1)" by blast
  have again_ok: "save_coordinates_to_json env1 w2 = (env2, InformationSaved P)"
    using s2[of env1] e2(1) by simp
  have read2: "open_read env2 P = Inr (JsonDoc D2)"
    using json_dump_to_Inr(3)[OF e2(1)] .
  have "dialog = InformationSaved P \<and>
        write_log env1 = write_log env @
          [\<lparr>jw_path = P, jw_encoding = ''utf-8'', jw_indent = 4, jw_ensure_ascii = False,
            jw_data = D\<rparr>] \<and>
        open_read env1 P = Inr (JsonDoc D) \<and>
        (\<exists>env2. save_coordinates_to_json env1 w2 = (env2, InformationSaved P) \<and>
                file_paths (fs_root env2) = file_paths (fs_root env1) \<and>
                open_read env2 P = Inr (JsonDoc D2))"
    using dlg json_dump_to_Inr(2,3)[OF d] again_ok e2(2) read2 by blast
  then show ?thesis unfolding P_def D_def D2_def pj_def .
qed

theorem save_writes_record_to_named_path_witness:
  "snd (save_coordinates_to_json annotator_env example_window) =
     InformationSaved ''/pics/clip/drag_data_a_to_c.v2.json'' \<and>
   write_log (fst (save_coordinates_to_json annotator_env example_window)) =
     [\<lparr>jw_path = ''/pics/clip/drag_data_a_to_c.v2.json'',
       jw_encoding = ''utf-8'', jw_indent = 4, jw_ensure_ascii = False,
       jw_data =
         JObj [(''frame1_image'', JStr ''a.png''),
               (''frame2_image'', JStr ''c.v2.jpeg''),
               (''mask_area'',
                JArr [JObj [(''x'', JNum 0), (''y'', JNum 0)], JObj [(''x'', JNum 9), (''y'', JNum 0)],
                      JObj [(''x'', JNum 9), (''y'', JNum 9)], JObj [(''x'', JNum 0), (''y'', JNum 9)]]),
               (''source_points'', JArr [JObj [(''x'', JNum 1), (''y'', JNum 1)]]),
               (''target_points'', JArr [JObj [(''x'', JNum 3), (''y'', JNum 3)]])]\<rparr>] \<and>
   file_paths (fs_root (fst (save_coordinates_to_json
       (fst (save_coordinates_to_json annotator_env example_window))
       (example_window\<lparr>source_points_on_frame1 := [(2, 2)]\<rparr>)))) =
   file_paths (fs_root (fst (save_coordinates_to_json annotator_env example_window)))"
proof -
  let ?w = example_window and ?w2 = "example_window\<lparr>source_points_on_frame1 := [(2, 2)]\<rparr>"
  let ?env1 = "fst (save_coordinates_to_json annotator_env ?w)"
  let ?d = "snd (save_coordinates_to_json annotator_env ?w)"
  have p: "path_join (dirname ''/pics/clip/a.png'')
              (''drag_data_'' @ fst (splitext (basename ''/pics/clip/a.png'')) @ ''_to_'' @
               fst (splitext (basename ''/pics/clip/c.v2.jpeg'')) @ ''.json'') =
           ''/pics/clip/drag_data_a_to_c.v2.json''" by code_simp
  have p': "path_join (dirname ''/pics/clip/a.png'')
              (''drag_data_'' @ fst (splitext ''a.png'') @ ''_to_'' @
               fst (splitext ''c.v2.jpeg'') @ ''.json'') =
           ''/pics/clip/drag_data_a_to_c.v2.json''" by code_simp
  have b1: "basename ''/pics/clip/a.png'' = ''a.png''" by code_simp
  have b2: "basename ''/pics/clip/c.v2.jpeg'' = ''c.v2.jpeg''" by code_simp
  have pts: "mask_points_on_combined ?w = [(0, 0), (9, 0), (9, 9), (0, 9)]"
    "source_points_on_frame1 ?w = [(1, 1)]" "target_points_on_frame2 ?w = [(3, 3)]"
    by (simp_all add: example_window_def)
  have lg: "write_log annotator_env = []" by (simp add: annotator_env_def)
  have h1: "image_path_frame1 ?w = Some ''/pics/clip/a.png''" "''/pics/clip/a.png'' \<noteq> []"
    "image_path_frame2 ?w = Some ''/pics/clip/c.v2.jpeg''" "''/pics/clip/c.v2.jpeg'' \<noteq> []"
    "length (mask_points_on_combined ?w) = 4" "source_points_on_frame1 ?w \<noteq> []"
    "length (source_points_on_frame1 ?w) = length (target_points_on_frame2 ?w)"
    by (simp_all add: example_window_def)
  have h2: "save_coordinates_to_json annotator_env ?w = (?env1, ?d)" by simp
  have "?d = InformationSaved ''/pics/clip/drag_data_a_to_c.v2.json''" by code_simp
  then have h3: "\<forall>e. ?d \<noteq> CriticalSaveFailed e" by simp
  have h4: "image_path_frame1 ?w2 = Some ''/pics/clip/a.png''"
    "image_path_frame2 ?w2 = Some ''/pics/clip/c.v2.jpeg''"
    "length (mask_points_on_combined ?w2) = 4" "source_points_on_frame1 ?w2 \<noteq> []"
    "length (source_points_on_frame1 ?w2) = length (target_points_on_frame2 ?w2)"
    by (simp_all add: example_window_def)
  note t = save_writes_record_to_named_path[OF h1 h2 h3 h4, unfolded p b1 b2 pts lg, unfolded p']
  from t have a: "?d = InformationSaved ''/pics/clip/drag_data_a_to_c.v2.json''" by blast
  from t have l: "write_log ?env1 =
     [\<lparr>jw_path = ''/pics/clip/drag_data_a_to_c.v2.json'',
       jw_encoding = ''utf-8'', jw_indent = 4, jw_ensure_ascii = False,
       jw_data =
         JObj [(''frame1_image'', JStr ''a.png''),
               (''frame2_image'', JStr ''c.v2.jpeg''),
               (''mask_area'',
                JArr [JObj [(''x'', JNum 0), (''y'', JNum 0)], JObj [(''x'', JNum 9), (''y'', JNum 0)],
                      JObj [(''x'', JNum 9), (''y'', JNum 9)], JObj [(''x'', JNum 0), (''y'', JNum 9)]]),
               (''source_points'', JArr [JObj [(''x'', JNum 1), (''y'', JNum 1)]]),
               (''target_points'', JArr [JObj [(''x'', JNum 3), (''y'', JNum 3)]])]\<rparr>]"
    by simp
  from t obtain env2 where
    "save_coordinates_to_json ?env1 ?w2 = (env2, InformationSaved ''/pics/clip/drag_data_a_to_c.v2.json'')"
    "file_paths (fs_root env2) = file_paths (fs_root ?env1)" by blast
  then have "file_paths (fs_root (fst (save_coordinates_to_json ?env1 ?w2))) = file_paths (fs_root ?env1)"
    by simp
  with a l show ?thesis by blast
qed

lemma isdir_listdir:
  assumes "resolve env p = Some (Dir es)"
  shows "isdir env p" "os_listdir env p = Inr (map fst es)"
    "get_image_paths env p = Inr (sort (map (path_join p) (filter has_image_extension (map fst es))))"
  using assms by (simp_all add: isdir_def os_listdir_def get_image_paths_def)

lemma isdir_cases: "isdir env p \<Longrightarrow> \<exists>es. resolve env p = Some (Dir es)"
  by (auto simp: isdir_def split: option.splits node.splits)

lemma scan_entries_ok:
  "\<exists>ws. scan_entries env r entries = Inr ws \<and>
     (\<forall>e es. e \<in> set entries \<and> resolve env (path_join r e) = Some (Dir es) \<and>
        1 < length (filter has_image_extension (map fst es)) \<longrightarrow>
        (path_join r e, sort (map (path_join (path_join r e)) (filter has_image_extension (map fst es))))
          \<in> set ws)"
proof (induction entries)
  case Nil
  then show ?case by simp
next
  case (Cons a entries)
  then obtain ws where ws: "scan_entries env r entries = Inr ws"
    and mem: "\<forall>e es. e \<in> set entries \<and> resolve env (path_join r e) = Some (Dir es) \<and>
        1 < length (filter has_image_extension (map fst es)) \<longrightarrow>
        (path_join r e, sort (map (path_join (path_join r e)) (filter has_image_extension (map fst es))))
          \<in> set ws" by blast
  show ?case
  proof (cases "isdir env (path_join r a)")
    case False
    then have "scan_entries env r (a # entries) = Inr ws" using ws by (simp add: Let_def)
    moreover have "\<And>es. resolve env (path_join r a) \<noteq> Some (Dir es)"
      using False isdir_listdir(1) by blast
    ultimately show ?thesis using mem by auto
  next
    case True
    then obtain es where es: "resolve env (path_join r a) = Some (Dir es)"
      using isdir_cases by blast
    note l = isdir_listdir[OF es]
    show ?thesis
    proof (cases "1 < length (filter has_image_extension (map fst es))")
      case False
      then have "scan_entries env r (a # entries) = Inr ws"
        using ws True l by (simp add: Let_def)
      then show ?thesis using mem es False by auto
    next
      case c: True
      then have "scan_entries env r (a # entries) =
        Inr ((path_join r a, sort (map (path_join (path_join r a)) (filter has_image_extension (map fst es)))) # ws)"
        using ws True l by (simp add: Let_def)
      then show ?thesis using mem es by auto
    qed
  qed
qed

lemma two_entries_count:
  assumes "(f, File c) \<in> set es" "(g, Dir es') \<in> set es" "P f" "P g"
  shows "1 < length (filter P (map fst es))"
proof -
  let ?Q = "\<lambda>e. P (fst e)"
  have "{(f, File c), (g, Dir es')} \<subseteq> set (filter ?Q es)" using assms by auto
  then have "card {(f, File c), (g, Dir es')} \<le> card (set (filter ?Q es))"
    by (intro card_mono) auto
  moreover have "card {(f, File c), (g, Dir es')} = 2" by simp
  moreover have "card (set (filter ?Q es)) \<le> length (filter ?Q es)" by (rule card_length)
  moreover have "length (filter P (map fst es)) = length (filter ?Q es)"
    by (simp add: filter_map comp_def)
  ultimately show ?thesis by linarith
qed

text \<open>
  C9. The scanner counts the entries of a folder by name only. A folder that holds a
  regular file and a subdirectory, both named with an image extension, has an image count
  above one, gets a thumbnail widget, and the path of the subdirectory is in the sorted
  image list of that widget.
\<close>

theorem scan_directory_counts_entries_by_name:
  assumes "os_listdir env root_dir = Inr entries" and "entry \<in> set entries"
    and "resolve env (path_join root_dir entry) = Some (Dir es)"
    and "(f, File c) \<in> set es" and "(g, Dir es') \<in> set es"
    and "has_image_extension f" and "has_image_extension g"
  shows "1 < length (filter has_image_extension (map fst es)) \<and>
         (\<exists>widgets paths. scan_directory env root_dir = Inr widgets \<and>
            (path_join root_dir entry, paths) \<in> set widgets \<and>
            get_image_paths env (path_join root_dir entry) = Inr paths \<and>
            path_join (path_join root_dir entry) g \<in> set paths \<and>
            sorted paths)"
proof -
  have cnt: "1 < length (filter has_image_extension (map fst es))"
    using two_entries_count[OF assms(4,5,6,7)] .
  obtain ws where ws: "scan_entries env root_dir entries = Inr ws"
    and mem: "\<forall>e es. e \<in> set entries \<and> resolve env (path_join root_dir e) = Some (Dir es) \<and>
        1 < length (filter has_image_extension (map fst es)) \<longrightarrow>
        (path_join root_dir e, sort (map (path_join (path_join root_dir e)) (filter has_image_extension (map fst es))))
          \<in> set ws"
    using scan_entries_ok[of env root_dir entries] by blast
  let ?paths = "sort (map (path_join (path_join root_dir entry)) (filter has_image_extension (map fst es)))"
  have "scan_directory env root_dir = Inr ws" using assms(1) ws by (simp add: scan_directory_def)
  moreover have "(path_join root_dir entry, ?paths) \<in> set ws" using mem assms(2,3) cnt by blast
  moreover have "get_image_paths env (path_join root_dir entry) = Inr ?paths"
    using isdir_listdir(3)[OF assms(3)] .
  moreover have "g \<in> set (map fst es)" using assms(5) by force
  then have "path_join (path_join root_dir entry) g \<in> set ?paths" using assms(7) by simp
  moreover have "sorted ?paths" by simp
  ultimately show ?thesis using cnt by blast
qed

theorem scan_directory_counts_entries_by_name_witness:
  "1 < length (filter has_image_extension
         (map fst [(''a.png'', File (ImageFile 1)), (''b.JPG'', Dir []), (''c.v2.jpeg'', File (ImageFile 2)),
       (''notes.txt'', File InvalidJson)])) \<and>
   (\<exists>widgets paths. scan_directory annotator_env ''/pics'' = Inr widgets \<and>
      (path_join ''/pics'' ''clip'', paths) \<in> set widgets \<and>
      get_image_paths annotator_env (path_join ''/pics'' ''clip'') = Inr paths \<and>
      path_join (path_join ''/pics'' ''clip'') ''b.JPG'' \<in> set paths \<and>
      sorted paths)"
proof -
  have a: "os_listdir annotator_env ''/pics'' = Inr [''clip'', ''single'', ''readme.png'']"
    by code_simp
  have b: "''clip'' \<in> set [''clip'', ''single'', ''readme.png'']" by simp
  have c: "resolve annotator_env (path_join ''/pics'' ''clip'') =
      Some (Dir [(''a.png'', File (ImageFile 1)), (''b.JPG'', Dir []), (''c.v2.jpeg'', File (ImageFile 2)),
       (''notes.txt'', File InvalidJson)])"
    by code_simp
  have d: "(''a.png'', File (ImageFile 1)) \<in>
      set [(''a.png'', File (ImageFile 1)), (''b.JPG'', Dir []), (''c.v2.jpeg'', File (ImageFile 2)),
       (''notes.txt'', File InvalidJson)]"
    by simp
  have e: "(''b.JPG'', Dir []) \<in>
      set [(''a.png'', File (ImageFile 1)), (''b.JPG'', Dir []), (''c.v2.jpeg'', File (ImageFile 2)),
       (''notes.txt'', File InvalidJson)]"
    by simp
  have f: "has_image_extension ''a.png''" by code_simp
  have g: "has_image_extension ''b.JPG''" by code_simp
  show ?thesis by (rule scan_directory_counts_entries_by_name[OF a b c d e f g])
qed

text \<open>
  C10. \<open>describe_images\<close> opens exactly the joins of the static data directory with the two
  supplied paths (the second only when the first image opened), and no response is an
  access-denied response. For the supplied path \<open>../../secret.png\<close> the opened path
  resolves to \<open>/srv/app/secret.png\<close>, outside \<open>/srv/app/static/data\<close>, and the request
  succeeds.
\<close>

theorem describe_images_opens_joined_paths:
  "snd (describe_images env captioner (Some p1) (Some p2)) =
     (if isl (image_open env (path_join STATIC_DATA_DIR p1))
      then [path_join STATIC_DATA_DIR p1]
      else [path_join STATIC_DATA_DIR p1, path_join STATIC_DATA_DIR p2]) \<and>
   fst (describe_images env captioner (Some p1) (Some p2)) \<noteq> Failed 403 m \<and>
   fst (describe_images viewer_env (\<lambda>i. Inr ''an image'') (Some ''../../secret.png'') (Some ''clip/f1.png''))
     = Described ''an image'' ''an image'' (label_first @ ''an image'' @ label_second @ ''an image'') \<and>
   path_join STATIC_DATA_DIR ''../../secret.png'' = ''static/data/../../secret.png'' \<and>
   abspath (cwd viewer_env) (path_join STATIC_DATA_DIR ''../../secret.png'') = ''/srv/app/secret.png'' \<and>
   abspath (cwd viewer_env) STATIC_DATA_DIR = ''/srv/app/static/data'' \<and>
   \<not> resolves_inside (cwd viewer_env) STATIC_DATA_DIR (path_join STATIC_DATA_DIR ''../../secret.png'')"
proof -
  have a: "snd (describe_images env captioner (Some p1) (Some p2)) =
     (if isl (image_open env (path_join STATIC_DATA_DIR p1))
      then [path_join STATIC_DATA_DIR p1]
      else [path_join STATIC_DATA_DIR p1, path_join STATIC_DATA_DIR p2])"
    by (auto simp: describe_images_def Let_def split: sum.splits)
  have b: "fst (describe_images env captioner (Some p1) (Some p2)) \<noteq> Failed 403 m"
    by (auto simp: describe_images_def Let_def split: sum.splits)
  have c: "fst (describe_images viewer_env (\<lambda>i. Inr ''an image'') (Some ''../../secret.png'') (Some ''clip/f1.png''))
     = Described ''an image'' ''an image'' (label_first @ ''an image'' @ label_second @ ''an image'')"
    by code_simp
  have d: "path_join STATIC_DATA_DIR ''../../secret.png'' = ''static/data/../../secret.png''"
    by code_simp
  have e: "abspath (cwd viewer_env) (path_join STATIC_DATA_DIR ''../../secret.png'') = ''/srv/app/secret.png''"
    by code_simp
  have f: "abspath (cwd viewer_env) STATIC_DATA_DIR = ''/srv/app/static/data''"
    by code_simp
  have g: "\<not> resolves_inside (cwd viewer_env) STATIC_DATA_DIR (path_join STATIC_DATA_DIR ''../../secret.png'')"
    by code_simp
  show ?thesis using a b c d e f g by blast
qed

theorem describe_images_opens_joined_paths_witness:
  "snd (describe_images viewer_env (\<lambda>i. Inr ''an image'') (Some ''../../secret.png'') (Some ''clip/f1.png'')) =
     [''static/data/../../secret.png'', ''static/data/clip/f1.png'']"
proof -
  have a: "\<not> isl (image_open viewer_env (path_join STATIC_DATA_DIR ''../../secret.png''))" by code_simp
  have b: "path_join STATIC_DATA_DIR ''../../secret.png'' = ''static/data/../../secret.png''" by code_simp
  have c: "path_join STATIC_DATA_DIR ''clip/f1.png'' = ''static/data/clip/f1.png''" by code_simp
  from describe_images_opens_joined_paths[of viewer_env "\<lambda>i. Inr ''an image''" "''../../secret.png''" "''clip/f1.png''"]
  have "snd (describe_images viewer_env (\<lambda>i. Inr ''an image'') (Some ''../../secret.png'') (Some ''clip/f1.png'')) =
     (if isl (image_open viewer_env (path_join STATIC_DATA_DIR ''../../secret.png''))
      then [path_join STATIC_DATA_DIR ''../../secret.png'']
      else [path_join STATIC_DATA_DIR ''../../secret.png'', path_join STATIC_DATA_DIR ''clip/f1.png''])"
    by blast
  then show ?thesis using a unfolding b c by simp
qed

text \<open>
  C2 fails on the code. The containment test of \<open>update_caption\<close> compares the absolute
  paths as strings. The path \<open>data_old/x.json\<close> resolves to \<open>/srv/app/data_old/x.json\<close>,
  outside the data root \<open>/srv/app/data\<close>, yet its absolute path starts with the string
  \<open>/srv/app/data\<close>: the request is answered with success and the file is rewritten with the
  caption.
\<close>

theorem update_caption_sibling_directory_accepted:
  "abspath (cwd viewer_env) BASE_DIR = ''/srv/app/data'' \<and>
   abspath (cwd viewer_env) ''data_old/x.json'' = ''/srv/app/data_old/x.json'' \<and>
   \<not> resolves_inside (cwd viewer_env) BASE_DIR ''data_old/x.json'' \<and>
   open_read viewer_env ''data_old/x.json'' = Inr (JsonDoc (JObj [(''kept'', JNum 1)])) \<and>
   snd (update_caption viewer_env (Some (JStr ''data_old/x.json'')) (Some (JStr ''hello''))) =
     Response 200 True (Msg ''Caption updated successfully'') \<and>
   open_read (fst (update_caption viewer_env (Some (JStr ''data_old/x.json'')) (Some (JStr ''hello''))))
     ''data_old/x.json'' = Inr (JsonDoc (JObj [(''kept'', JNum 1), (''caption'', JStr ''hello'')]))"
proof -
  have a: "abspath (cwd viewer_env) BASE_DIR = ''/srv/app/data''" by code_simp
  have b: "abspath (cwd viewer_env) ''data_old/x.json'' = ''/srv/app/data_old/x.json''" by code_simp
  have c: "\<not> resolves_inside (cwd viewer_env) BASE_DIR ''data_old/x.json''" by code_simp
  have d: "open_read viewer_env ''data_old/x.json'' = Inr (JsonDoc (JObj [(''kept'', JNum 1)]))" by code_simp
  have e: "snd (update_caption viewer_env (Some (JStr ''data_old/x.json'')) (Some (JStr ''hello''))) =
     Response 200 True (Msg ''Caption updated successfully'')" by code_simp
  have f: "open_read (fst (update_caption viewer_env (Some (JStr ''data_old/x.json'')) (Some (JStr ''hello''))))
     ''data_old/x.json'' = Inr (JsonDoc (JObj [(''kept'', JNum 1), (''caption'', JStr ''hello'')]))" by code_simp
  show ?thesis using a b c d e f by blast
qed

theorem update_caption_sibling_directory_accepted_witness:
  "snd (update_caption viewer_env (Some (JStr ''data_old/x.json'')) (Some (JStr ''hello''))) =
     Response 200 True (Msg ''Caption updated successfully'')"
  using update_caption_sibling_directory_accepted by blast

lemma update_caption_rejects_without_prefix:
  assumes "p \<noteq> []" and "caption \<noteq> JNull"
    and "\<not> startswith (abspath (cwd env) p) (abspath (cwd env) BASE_DIR)"
  shows "update_caption env (Some (JStr p)) (Some caption) = (env, Response 403 False (Msg ''Access denied''))"
  using assms by (simp add: update_caption_def)

lemma update_caption_outside_rejected_example:
  "update_caption viewer_env (Some (JStr ''../secret.json'')) (Some (JStr ''hello'')) =
     (viewer_env, Response 403 False (Msg ''Access denied''))"
  by code_simp

text \<open>
  C6 fails on the code. \<open>find_files\<close> skips a file whose text is not JSON
  (\<open>JSONDecodeError\<close>), but a \<open>.json\<close> file that is not valid UTF-8 raises
  \<open>UnicodeDecodeError\<close>, which the \<open>except\<close> clause does not name: the whole classification
  fails and returns no bucket. A file that holds the JSON value \<open>null\<close> fails it with
  \<open>TypeError\<close>. The third tree, with a file of malformed JSON text beside one captioned and
  one uncaptioned record, is classified as the claim says.
\<close>

theorem find_files_undecodable_file_raises:
  "find_files viewer_env_undecodable = Inl UnicodeDecodeError \<and>
   find_files viewer_env_null = Inl TypeError \<and>
   find_files viewer_env_malformed =
     Inr ([JObj [(''frame1_image'', JStr ''clip/f1.png''), (''frame2_image'', JStr ''clip/f2.png''),
                 (''json_file_path'', JStr ''data/clip/b.json''), (''directory_name'', JStr ''clip'')]],
          [JObj [(''frame1_image'', JStr ''clip/f1.png''), (''frame2_image'', JStr ''clip/f2.png''),
                 (''caption'', JStr ''a cat''),
                 (''json_file_path'', JStr ''data/clip/a.json''), (''directory_name'', JStr ''clip'')]])"
proof -
  have a: "find_files viewer_env_undecodable = Inl UnicodeDecodeError" by code_simp
  have b: "find_files viewer_env_null = Inl TypeError" by code_simp
  have c: "find_files viewer_env_malformed =
     Inr ([JObj [(''frame1_image'', JStr ''clip/f1.png''), (''frame2_image'', JStr ''clip/f2.png''),
                 (''json_file_path'', JStr ''data/clip/b.json''), (''directory_name'', JStr ''clip'')]],
          [JObj [(''frame1_image'', JStr ''clip/f1.png''), (''frame2_image'', JStr ''clip/f2.png''),
                 (''caption'', JStr ''a cat''),
                 (''json_file_path'', JStr ''data/clip/a.json''), (''directory_name'', JStr ''clip'')]])"
    by code_simp
  show ?thesis using a b c by blast
qed

theorem find_files_undecodable_file_raises_witness:
  "find_files viewer_env_undecodable = Inl UnicodeDecodeError"
  using find_files_undecodable_file_raises by blast

end
